theory Spec2Isabelle
  imports Main "HOL-Library.AList" "HOL-Library.Char_ord" "HOL-Library.List_Lexorder"
begin

section \<open>Strings of the Go standard library\<close>

text \<open>
  Go strings are byte sequences; they are modelled as \<open>string\<close> (a list of 8-bit
  characters). \<open>strings.HasPrefix\<close>, \<open>strings.HasSuffix\<close> and
  \<open>strings.TrimSuffix\<close> are written the way the Go library writes them, with slices
  as \<open>take\<close> and \<open>drop\<close>.
\<close>

definition HasPrefix :: "string \<Rightarrow> string \<Rightarrow> bool" where
  "HasPrefix s pre = (length pre \<le> length s \<and> take (length pre) s = pre)"

definition HasSuffix :: "string \<Rightarrow> string \<Rightarrow> bool" where
  "HasSuffix s suf = (length suf \<le> length s \<and> drop (length s - length suf) s = suf)"

definition TrimSuffix :: "string \<Rightarrow> string \<Rightarrow> string" where
  "TrimSuffix s suf = (if HasSuffix s suf then take (length s - length suf) s else s)"

section \<open>The manifest (package config)\<close>

text \<open>
  \<open>SSHCredentials\<close>, \<open>Config\<close> and \<open>FileInfo\<close> are the structs of the source. A Go map that the program iterates over is
  an association list read through \<open>map_of\<close>: the first binding of a key is the
  binding of the map, and \<open>range_map\<close> enumerates every key once with that binding
  (Go enumerates in an unspecified order; the functions below that iterate end in a sort
  or build sets, and the theorems do not depend on the order). The mutex of the source
  only serialises the calls, so a manifest is the map alone. A nil map reads like an
  empty one, and \<open>AddFile\<close> is only called on the manifest that \<open>RunCollection\<close>
  makes with \<open>NewManifest\<close>, whose inner maps \<open>AddFile\<close> itself creates, so nil
  maps are not told apart from empty ones.
\<close>

record SSHCredentials =
  Username :: string
  KeyPath :: string
  KeyPassphrase :: string

record Config =
  Servers :: "string list"
  Files :: "string list"
  Dirs :: "string list"
  SSHConfig :: SSHCredentials

record FileInfo =
  Path :: string
  Checksum :: string
  Error :: string

type_synonym ('k, 'v) gomap = "('k \<times> 'v) list"

definition range_map :: "('k, 'v) gomap \<Rightarrow> ('k \<times> 'v) list" where
  "range_map m = AList.clearjunk m"

record Manifest =
  FilesByServer :: "(string, (string, FileInfo) gomap) gomap"

definition NewManifest :: Manifest where
  "NewManifest = \<lparr>FilesByServer = []\<rparr>"

definition zero_FileInfo :: FileInfo where
  "zero_FileInfo = \<lparr>Path = [], Checksum = [], Error = []\<rparr>"

definition AddFile :: "Manifest \<Rightarrow> string \<Rightarrow> string \<Rightarrow> string \<Rightarrow> string \<Rightarrow> Manifest" where
  "AddFile m server relativePath checksum fileError =
     (let serverFiles = (case map_of (FilesByServer m) server of
                           None \<Rightarrow> []
                         | Some fs \<Rightarrow> fs)
      in m\<lparr>FilesByServer :=
             AList.update server
               (AList.update relativePath
                  \<lparr>Path = relativePath, Checksum = checksum, Error = fileError\<rparr>
                  serverFiles)
               (FilesByServer m)\<rparr>)"

definition GetFileInfo :: "Manifest \<Rightarrow> string \<Rightarrow> string \<Rightarrow> FileInfo \<times> bool" where
  "GetFileInfo m server relativePath =
     (case map_of (FilesByServer m) server of
        None \<Rightarrow> (zero_FileInfo, False)
      | Some serverFiles \<Rightarrow>
          (case map_of serverFiles relativePath of
             None \<Rightarrow> (zero_FileInfo, False)
           | Some fileInfo \<Rightarrow> (fileInfo, True)))"

section \<open>The comparison set (package analyze)\<close>

text \<open>
  \<open>getFilesToCompare\<close>: \<open>fileCounts\<close> is the map from a path to the number of
  servers of the list that hold a record of it with an empty error text, \<open>allFiles\<close>
  the set of the paths counted, kept as a duplicate-free list. A server that the manifest
  does not know is skipped. The paths whose count equals the number of servers are
  sorted with \<open>sort.Strings\<close>, the bytewise lexicographic order.
\<close>

definition count_path :: "(string \<rightharpoonup> nat) \<times> string list \<Rightarrow> string \<times> FileInfo
    \<Rightarrow> (string \<rightharpoonup> nat) \<times> string list" where
  "count_path acc kv =
     (if Error (snd kv) = []
      then ((fst acc)(fst kv \<mapsto> (case fst acc (fst kv) of None \<Rightarrow> 0 | Some c \<Rightarrow> c) + 1),
            List.insert (fst kv) (snd acc))
      else acc)"

fun count_servers :: "string list \<Rightarrow> Manifest \<Rightarrow> (string \<rightharpoonup> nat) \<times> string list
    \<Rightarrow> (string \<rightharpoonup> nat) \<times> string list" where
  "count_servers [] m acc = acc"
| "count_servers (server # rest) m acc =
     (case map_of (FilesByServer m) server of
        None \<Rightarrow> count_servers rest m acc
      | Some serverFiles \<Rightarrow> count_servers rest m (foldl count_path acc (range_map serverFiles)))"

definition getFilesToCompare :: "string list \<Rightarrow> Manifest \<Rightarrow> string list" where
  "getFilesToCompare servers m =
     (if length servers = 0 then []
      else
        (let counted = count_servers servers m (Map.empty, []);
             fileCounts = fst counted;
             allFiles = snd counted;
             numServers = length servers;
             commonFiles = filter (\<lambda>filePath.
                 (case fileCounts filePath of
                    Some count \<Rightarrow> count = numServers
                  | None \<Rightarrow> False)) allFiles
         in sort commonFiles))"

text \<open>A server holds a valid record of a path: the record exists and its error text is empty.\<close>

definition valid_on :: "Manifest \<Rightarrow> string \<Rightarrow> string \<Rightarrow> bool" where
  "valid_on m filePath server =
     (case map_of (FilesByServer m) server of
        None \<Rightarrow> False
      | Some serverFiles \<Rightarrow>
          (case map_of serverFiles filePath of
             None \<Rightarrow> False
           | Some info \<Rightarrow> Error info = []))"

text \<open>The count that \<open>fileCounts\<close> holds for a path, zero for a path it does not hold.\<close>

definition count_of :: "(string \<rightharpoonup> nat) \<Rightarrow> string \<Rightarrow> nat" where
  "count_of fileCounts filePath = (case fileCounts filePath of None \<Rightarrow> 0 | Some c \<Rightarrow> c)"

section \<open>Lexical paths (package path/filepath on Unix)\<close>

text \<open>
  \<open>filepath.Clean\<close> works on the elements between separators: empty elements and
  \<open>.\<close> are dropped, \<open>..\<close> removes the element before it, is dropped at the root
  of a rooted path and is kept at the front of a relative one; the empty result is
  \<open>.\<close>. \<open>clean_elems\<close> keeps the elements written so far in reverse.
  \<open>filepath.Join\<close> ignores leading empty arguments, joins the rest with the separator
  and cleans the result; \<open>filepath.Dir\<close> cleans what precedes the last element.
\<close>

fun split_sep :: "string \<Rightarrow> string \<Rightarrow> string list" where
  "split_sep cur [] = [rev cur]"
| "split_sep cur (c # cs) =
     (if c = CHR ''/'' then rev cur # split_sep [] cs else split_sep (c # cur) cs)"

fun clean_elems :: "bool \<Rightarrow> string list \<Rightarrow> string list \<Rightarrow> string list" where
  "clean_elems rooted out [] = rev out"
| "clean_elems rooted out (e # es) =
     (if e = [] \<or> e = ''.'' then clean_elems rooted out es
      else if e = ''..'' then
        (case out of
           [] \<Rightarrow> if rooted then clean_elems rooted out es else clean_elems rooted [e] es
         | el # below \<Rightarrow>
             if el = ''..'' then clean_elems rooted (e # out) es
             else clean_elems rooted below es)
      else clean_elems rooted (e # out) es)"

fun join_sep :: "string list \<Rightarrow> string" where
  "join_sep [] = []"
| "join_sep [e] = e"
| "join_sep (e # es) = e @ ''/'' @ join_sep es"

definition Clean :: "string \<Rightarrow> string" where
  "Clean path =
     (let rooted = (path \<noteq> [] \<and> hd path = CHR ''/'');
          out = (if rooted then ''/'' else []) @ join_sep (clean_elems rooted [] (split_sep [] path))
      in if out = [] then ''.'' else out)"

definition Join :: "string list \<Rightarrow> string" where
  "Join elem =
     (case dropWhile (\<lambda>e. e = []) elem of
        [] \<Rightarrow> []
      | es \<Rightarrow> Clean (join_sep es))"

fun last_sep :: "string \<Rightarrow> nat" where
  "last_sep [] = 0"
| "last_sep (c # cs) =
     (if CHR ''/'' \<in> set cs then Suc (last_sep cs)
      else if c = CHR ''/'' then 1 else 0)"

definition Dir :: "string \<Rightarrow> string" where
  "Dir path = Clean (take (last_sep path) path)"

section \<open>The local file system\<close>

text \<open>
  The part of the file system that the extraction touches: a map from a path to a
  directory or to a regular file with its content. \<open>os.MkdirAll\<close> goes down the
  ancestors of the path, creates each missing one as a directory and fails on a regular
  file in its way and on the empty path; \<open>os.OpenFile\<close> with \<open>O_CREATE|O_RDWR|O_TRUNC\<close> leaves an empty
  regular file at the path and fails on a directory; \<open>os.Remove\<close> deletes the file.
\<close>

datatype node = DirNode | FileNode string

type_synonym filesys = "string \<rightharpoonup> node"

fun ancestors :: "string \<Rightarrow> string \<Rightarrow> string list" where
  "ancestors pre [] = []"
| "ancestors pre (c # cs) =
     (if c = CHR ''/''
      then (if pre = [] then [''/''] else [pre]) @ ancestors (pre @ [c]) cs
      else ancestors (pre @ [c]) cs)"

fun mkdirs :: "string list \<Rightarrow> filesys \<Rightarrow> filesys option" where
  "mkdirs [] fs = Some fs"
| "mkdirs (p # ps) fs =
     (case fs p of
        Some (FileNode content) \<Rightarrow> None
      | Some DirNode \<Rightarrow> mkdirs ps fs
      | None \<Rightarrow> mkdirs ps (fs(p \<mapsto> DirNode)))"

definition MkdirAll :: "string \<Rightarrow> filesys \<Rightarrow> filesys option" where
  "MkdirAll path fs = (if path = [] then None else mkdirs (ancestors [] path @ [path]) fs)"

definition OpenFile_trunc :: "string \<Rightarrow> filesys \<Rightarrow> filesys option" where
  "OpenFile_trunc path fs =
     (case fs path of
        Some DirNode \<Rightarrow> None
      | _ \<Rightarrow> Some (fs(path \<mapsto> FileNode [])))"

definition Remove :: "string \<Rightarrow> filesys \<Rightarrow> filesys" where
  "Remove path fs = fs(path := None)"

section \<open>Archive extraction (package util)\<close>

text \<open>
  The gzip and tar readers are library code: the archive is what they deliver, either no
  gzip stream at all or a sequence of headers that ends at the end of the archive or in a
  header that cannot be read. The body of a regular file is what \<open>io.Copy\<close> does
  with it: it arrives whole, or the write fails, or the read from the archive fails,
  after the given bytes have reached the file. A failed read stays with the tar reader,
  whose next call of \<open>Next\<close> returns it.
\<close>

datatype tar_type = TypeDir | TypeReg | TypeSymlink | TypeLink | TypeOther char

datatype body = Copied string | WriteFails string | ReadFails string

record tar_entry =
  Name :: string
  Typeflag :: tar_type
  Body :: body

datatype tar_end = EndOfArchive | BadHeader

datatype archive = NotGzip | TarGz "tar_entry list" tar_end

datatype extract_error =
    GzipReaderError
  | TarHeaderError
  | InvalidPath string
  | DestinationError string
  | DirectoryError string
  | ParentDirectoryError string
  | CreateFileError string
  | CopyError string

text \<open>
  \<open>ExtractTarGz\<close> as in the util package of \<open>src/unnamed/part_002\<close>. In the closure
  around \<open>io.Copy\<close> the error is declared again by \<open>:=\<close>, so the wrapped copy error
  is assigned to a variable of the closure and the \<open>err\<close> tested after the closure is
  the one of \<open>os.OpenFile\<close>, which is nil there: the loop goes on to the next header.
  \<open>extract_entry\<close> is one turn of the loop after a header was read: it ends the
  extraction with an error or lets the loop read the next header (\<open>None\<close>). After a
  failed read of a body the next header cannot be read, which ends the extraction with
  the error of the header.
\<close>

definition extract_entry :: "string \<Rightarrow> tar_entry \<Rightarrow> filesys \<Rightarrow> extract_error option \<times> filesys" where
  "extract_entry dest header fs =
     (let target = Join [dest, Name header]
      in if \<not> HasPrefix target (Clean dest @ ''/'')
         then (Some (InvalidPath (Name header)), fs)
         else
           (case Typeflag header of
              TypeDir \<Rightarrow>
                (case MkdirAll target fs of
                   None \<Rightarrow> (Some (DirectoryError target), fs)
                 | Some fs1 \<Rightarrow> (None, fs1))
            | TypeReg \<Rightarrow>
                (case MkdirAll (Dir target) fs of
                   None \<Rightarrow> (Some (ParentDirectoryError target), fs)
                 | Some fs1 \<Rightarrow>
                     (case OpenFile_trunc target fs1 of
                        None \<Rightarrow> (Some (CreateFileError target), fs1)
                      | Some fs2 \<Rightarrow>
                          (case Body header of
                             Copied content \<Rightarrow> (None, fs2(target \<mapsto> FileNode content))
                           | WriteFails written \<Rightarrow> (None, fs2(target \<mapsto> FileNode written))
                           | ReadFails written \<Rightarrow>
                               (Some TarHeaderError, fs2(target \<mapsto> FileNode written)))))
            | TypeSymlink \<Rightarrow> (None, fs)
            | TypeLink \<Rightarrow> (None, fs)
            | TypeOther c \<Rightarrow> (None, fs)))"

fun extract_entries :: "string \<Rightarrow> tar_entry list \<Rightarrow> tar_end \<Rightarrow> filesys
    \<Rightarrow> extract_error option \<times> filesys" where
  "extract_entries dest [] fin fs =
     (case fin of EndOfArchive \<Rightarrow> (None, fs) | BadHeader \<Rightarrow> (Some TarHeaderError, fs))"
| "extract_entries dest (header # rest) fin fs =
     (case extract_entry dest header fs of
        (Some err, fs') \<Rightarrow> (Some err, fs')
      | (None, fs') \<Rightarrow> extract_entries dest rest fin fs')"

definition ExtractTarGz :: "archive \<Rightarrow> string \<Rightarrow> filesys \<Rightarrow> extract_error option \<times> filesys" where
  "ExtractTarGz gzipStream dest fs =
     (case gzipStream of
        NotGzip \<Rightarrow> (Some GzipReaderError, fs)
      | TarGz entries fin \<Rightarrow> extract_entries dest entries fin fs)"

text \<open>
  The second \<open>ExtractTarGz\<close> of the repository, the util package that follows
  \<open>main.go\<close> in \<open>src/go.mod\<close>: it creates the destination first, skips the entry of
  the archive root, accepts a target equal to the cleaned destination, and on a failed
  copy removes the target and returns the copy error.
\<close>

definition extract_entry_revised :: "string \<Rightarrow> tar_entry \<Rightarrow> filesys
    \<Rightarrow> extract_error option \<times> filesys" where
  "extract_entry_revised cleanDest header fs =
     (if Name header = ''.'' \<or> Name header = ''./'' then (None, fs)
      else
        (let target = Join [cleanDest, Name header]
         in if \<not> HasPrefix target (cleanDest @ ''/'') \<and> target \<noteq> cleanDest
            then (Some (InvalidPath (Name header)), fs)
            else
              (case Typeflag header of
                 TypeDir \<Rightarrow>
                   (case MkdirAll target fs of
                      None \<Rightarrow> (Some (DirectoryError target), fs)
                    | Some fs1 \<Rightarrow> (None, fs1))
               | TypeReg \<Rightarrow>
                   (case MkdirAll (Dir target) fs of
                      None \<Rightarrow> (Some (ParentDirectoryError target), fs)
                    | Some fs1 \<Rightarrow>
                        (case OpenFile_trunc target fs1 of
                           None \<Rightarrow> (Some (CreateFileError target), fs1)
                         | Some fs2 \<Rightarrow>
                             (case Body header of
                                Copied content \<Rightarrow> (None, fs2(target \<mapsto> FileNode content))
                              | WriteFails written \<Rightarrow>
                                  (Some (CopyError target),
                                   Remove target (fs2(target \<mapsto> FileNode written)))
                              | ReadFails written \<Rightarrow>
                                  (Some (CopyError target),
                                   Remove target (fs2(target \<mapsto> FileNode written))))))
               | TypeSymlink \<Rightarrow> (None, fs)
               | TypeLink \<Rightarrow> (None, fs)
               | TypeOther c \<Rightarrow> (None, fs))))"

fun extract_entries_revised :: "string \<Rightarrow> tar_entry list \<Rightarrow> tar_end \<Rightarrow> filesys
    \<Rightarrow> extract_error option \<times> filesys" where
  "extract_entries_revised cleanDest [] fin fs =
     (case fin of EndOfArchive \<Rightarrow> (None, fs) | BadHeader \<Rightarrow> (Some TarHeaderError, fs))"
| "extract_entries_revised cleanDest (header # rest) fin fs =
     (case extract_entry_revised cleanDest header fs of
        (Some err, fs') \<Rightarrow> (Some err, fs')
      | (None, fs') \<Rightarrow> extract_entries_revised cleanDest rest fin fs')"

definition ExtractTarGz_revised :: "archive \<Rightarrow> string \<Rightarrow> filesys
    \<Rightarrow> extract_error option \<times> filesys" where
  "ExtractTarGz_revised gzipStream dest fs =
     (case gzipStream of
        NotGzip \<Rightarrow> (Some GzipReaderError, fs)
      | TarGz entries fin \<Rightarrow>
          (case MkdirAll dest fs of
             None \<Rightarrow> (Some (DestinationError dest), fs)
           | Some fs0 \<Rightarrow> extract_entries_revised (Clean dest) entries fin fs0))"

text \<open>
  What the claims about the extraction say of paths is read on the elements of a path
  after its lexical resolution: empty elements and \<open>.\<close> are dropped and \<open>..\<close> takes
  the element before it away (\<open>segments\<close>). A path lies below a directory when both are
  absolute or both relative and its elements are those of the directory followed by at
  least one more element, none of them \<open>..\<close>; it is the place of the directory when the
  elements are the same. An entry name is resolved from the destination directory: an
  absolute name stands for itself, a relative name is taken from the destination. The
  name escapes when the resolved path is neither the destination nor below it.
\<close>

definition is_absolute :: "string \<Rightarrow> bool" where
  "is_absolute path = (path \<noteq> [] \<and> hd path = CHR ''/'')"

definition segments :: "string \<Rightarrow> string list" where
  "segments path = clean_elems (is_absolute path) [] (split_sep [] path)"

definition below :: "string \<Rightarrow> string \<Rightarrow> bool" where
  "below dest path =
     (let d = segments dest; t = segments path
      in is_absolute path = is_absolute dest \<and> length d < length t \<and> take (length d) t = d \<and>
         ''..'' \<notin> set (drop (length d) t))"

definition same_place :: "string \<Rightarrow> string \<Rightarrow> bool" where
  "same_place dest path = (is_absolute path = is_absolute dest \<and> segments path = segments dest)"

definition resolved :: "string \<Rightarrow> string \<Rightarrow> string" where
  "resolved dest name = (if is_absolute name \<or> dest = [] then name else dest @ ''/'' @ name)"

definition escapes :: "string \<Rightarrow> string \<Rightarrow> bool" where
  "escapes dest name =
     (\<not> same_place dest (resolved dest name) \<and> \<not> below dest (resolved dest name))"

text \<open>
  \<open>filepath.Join\<close> puts every name behind the destination and a separator, so what it
  resolves is the name without its leading separators. A destination is named when its
  resolved path ends in an element that is not \<open>..\<close> (it is not the root, the current
  directory or a chain of parents).
\<close>

definition relative_name :: "string \<Rightarrow> string" where
  "relative_name name = dropWhile (\<lambda>c. c = CHR ''/'') name"

definition named_destination :: "string \<Rightarrow> bool" where
  "named_destination dest = (segments dest \<noteq> [] \<and> last (segments dest) \<noteq> ''..'')"

text \<open>
  What an extraction may do to a path that is not below the destination: leave it as it
  was, or create it as a directory where there was nothing (the destination and its
  ancestors, when they do not exist yet).
\<close>

definition outside_kept :: "string \<Rightarrow> filesys \<Rightarrow> filesys \<Rightarrow> bool" where
  "outside_kept dest fs fs' =
     (\<forall>path. \<not> below dest path \<longrightarrow>
        fs' path = fs path \<or> (fs path = None \<and> fs' path = Some DirNode))"

text \<open>
  The shape of the stack of \<open>clean_elems\<close>, top first: no element is empty, is \<open>.\<close> or
  holds a separator, an element \<open>..\<close> has only \<open>..\<close> under it, and there is none in a
  rooted path.
\<close>

fun names_on_top :: "string list \<Rightarrow> bool" where
  "names_on_top [] = True"
| "names_on_top (e # rest) =
     (if e = ''..'' then (\<forall>x\<in>set rest. x = ''..'') else names_on_top rest)"

definition clean_stack :: "bool \<Rightarrow> string list \<Rightarrow> bool" where
  "clean_stack rooted out =
     ((\<forall>e\<in>set out. e \<noteq> [] \<and> e \<noteq> ''.'' \<and> CHR ''/'' \<notin> set e) \<and> names_on_top out \<and>
      (rooted \<longrightarrow> ''..'' \<notin> set out))"

section \<open>Comparing one file (package analyze)\<close>

text \<open>
  \<open>compareSingleFile\<close> reads the manifest, asks the local file system whether the
  collected copies exist, and runs the external \<open>diff -u\<close>. The outside world is a
  record: \<open>missing\<close> answers \<open>os.IsNotExist\<close> of \<open>os.Stat\<close>, \<open>run_diff\<close> is
  the outcome of the command on two paths. Every call of the command and every diff
  file written are recorded as effects, in the order of the source, and the result sent
  on the channel is the value returned. The map \<open>checksums\<close> of the source is written
  and never read, so it has no counterpart here.
\<close>

record fileComparisonResult =
  FilePath :: string
  IsDiff :: bool
  Diffs :: "(string, string) gomap"
  Errors :: "string list"

datatype diff_run = Exit0 string | Exit1 string | DiffFailed string string

datatype effect = RunDiff string string | WriteDiffFile string string

record world =
  missing :: "string \<Rightarrow> bool"
  run_diff :: "string \<Rightarrow> string \<Rightarrow> diff_run"

definition CollectedFilesBaseDir :: string where
  "CollectedFilesBaseDir = ''collected-files''"

record gathered =
  filePaths :: "(string, string) gomap"
  errorsFound :: "string list"
  foundOnAll :: bool
  firstChecksum :: string
  allMatch :: bool

fun gather :: "string \<Rightarrow> Manifest \<Rightarrow> string \<Rightarrow> nat \<Rightarrow> string list \<Rightarrow> gathered \<Rightarrow> gathered" where
  "gather filePath manifest baseOutputDir i [] g = g"
| "gather filePath manifest baseOutputDir i (server # rest) g =
     (let info = fst (GetFileInfo manifest server filePath);
          exists = snd (GetFileInfo manifest server filePath)
      in if \<not> exists \<or> Error info \<noteq> [] \<or> Checksum info = []
         then
           (let msg = (if exists \<and> Error info \<noteq> []
                       then ''File '' @ filePath @ '' has error on server '' @ server
                              @ '': '' @ Error info
                       else ''File '' @ filePath @ '' not found or has error on server ''
                              @ server)
            in gather filePath manifest baseOutputDir (i + 1) rest
                 (g\<lparr>errorsFound := errorsFound g @ [msg], foundOnAll := False\<rparr>))
         else
           (let g1 = g\<lparr>filePaths := AList.update server
                          (Join [baseOutputDir, CollectedFilesBaseDir, ''files-'' @ server, filePath])
                          (filePaths g)\<rparr>;
                g2 = (if i = 0 then g1\<lparr>firstChecksum := Checksum info\<rparr>
                      else if Checksum info \<noteq> firstChecksum g1 then g1\<lparr>allMatch := False\<rparr>
                      else g1)
            in gather filePath manifest baseOutputDir (i + 1) rest g2))"

fun server_pairs :: "string list \<Rightarrow> (string \<times> string) list" where
  "server_pairs [] = []"
| "server_pairs (server1 # rest) = map (Pair server1) rest @ server_pairs rest"

definition path_of :: "(string, string) gomap \<Rightarrow> string \<Rightarrow> string" where
  "path_of fp server = (case map_of fp server of None \<Rightarrow> [] | Some path \<Rightarrow> path)"

definition replace_slashes :: "string \<Rightarrow> string" where
  "replace_slashes filePath = map (\<lambda>c. if c = CHR ''/'' then CHR ''_'' else c) filePath"

definition diff_pair :: "world \<Rightarrow> string \<Rightarrow> (string, string) gomap \<Rightarrow> bool \<Rightarrow> string
    \<Rightarrow> fileComparisonResult \<times> effect list \<Rightarrow> string \<times> string
    \<Rightarrow> fileComparisonResult \<times> effect list" where
  "diff_pair w filePath fp saveDiffs diffDir acc pair =
     (let result = fst acc; effects = snd acc;
          server1 = fst pair; server2 = snd pair;
          path1 = path_of fp server1; path2 = path_of fp server2
      in if missing w path1
         then (result\<lparr>Errors := Errors result @ [''Local file missing for diff: '' @ path1]\<rparr>,
               effects)
         else if missing w path2
         then (result\<lparr>Errors := Errors result @ [''Local file missing for diff: '' @ path2]\<rparr>,
               effects)
         else
           (case run_diff w path1 path2 of
              Exit1 diffOutput \<Rightarrow>
                (result\<lparr>Diffs := AList.update (server1 @ ''_vs_'' @ server2) diffOutput
                                   (Diffs result)\<rparr>,
                 effects @ [RunDiff path1 path2] @
                   (if saveDiffs \<and> diffDir \<noteq> []
                    then [WriteDiffFile
                            (Join [diffDir, replace_slashes filePath @ ''__'' @ server1
                                              @ ''_vs_'' @ server2 @ ''.diff''])
                            diffOutput]
                    else []))
            | DiffFailed diffOutput err \<Rightarrow>
                (result\<lparr>Errors := Errors result @
                    [''Error running diff for '' @ path1 @ '' vs '' @ path2 @ '': '' @ err]\<rparr>,
                 effects @ [RunDiff path1 path2])
            | Exit0 diffOutput \<Rightarrow> (result, effects @ [RunDiff path1 path2])))"

definition compareSingleFile :: "world \<Rightarrow> string \<Rightarrow> string list \<Rightarrow> Manifest \<Rightarrow> string \<Rightarrow> bool
    \<Rightarrow> string \<Rightarrow> fileComparisonResult \<times> effect list" where
  "compareSingleFile w filePath servers manifest baseOutputDir saveDiffs diffDir =
     (let g = gather filePath manifest baseOutputDir 0 servers
                \<lparr>filePaths = [], errorsFound = [], foundOnAll = True,
                 firstChecksum = [], allMatch = True\<rparr>;
          result = \<lparr>FilePath = filePath, IsDiff = False, Diffs = [], Errors = errorsFound g\<rparr>
      in if \<not> foundOnAll g then (result\<lparr>IsDiff := True\<rparr>, [])
         else if allMatch g then (result\<lparr>IsDiff := False\<rparr>, [])
         else foldl (diff_pair w filePath (filePaths g) saveDiffs diffDir)
                (result\<lparr>IsDiff := True\<rparr>, []) (server_pairs servers))"

text \<open>The content-diff step was invoked when the external command ran at least once.\<close>

fun is_RunDiff :: "effect \<Rightarrow> bool" where
  "is_RunDiff (RunDiff path1 path2) = True"
| "is_RunDiff (WriteDiffFile path content) = False"

definition diff_invocations :: "effect list \<Rightarrow> nat" where
  "diff_invocations effects = length (filter is_RunDiff effects)"

section \<open>The analysis run (package analyze)\<close>

text \<open>
  \<open>RunAnalysis\<close> loads the manifest, checks the collection directory of every server,
  computes the comparison set and starts one task per path, each behind the weighted
  semaphore of size \<open>maxConcurrency\<close>. \<open>Acquire\<close> is called with the background
  context: it cannot fail, and with a size below one it never returns, so that no task
  ends and the run does not return (\<open>None\<close>). The tasks are independent; the results
  are listed in the order of the comparison set, where the source receives them in the
  order the tasks finish. The counts and the flag do not depend on that order.
\<close>

datatype stat_result = StatOK | StatNotExist | StatError

datatype analysis_error =
    ManifestLoadError
  | CollectionDirNotFound string
  | CollectionDirStatError string
  | DiffDirError string

record analysis_world =
  load_manifest :: "Manifest option"
  stat_dir :: "string \<Rightarrow> stat_result"
  diff_dir_ok :: bool
  files :: world

record analysis =
  results :: "fileComparisonResult list"
  effects :: "effect list"
  totalCompared :: nat
  totalIdentical :: nat
  totalDifferent :: nat
  anyDiffFound :: bool
  failure :: "analysis_error option"

definition no_analysis :: "analysis_error option \<Rightarrow> analysis" where
  "no_analysis err = \<lparr>results = [], effects = [], totalCompared = 0, totalIdentical = 0,
     totalDifferent = 0, anyDiffFound = False, failure = err\<rparr>"

fun check_dirs :: "(string \<Rightarrow> stat_result) \<Rightarrow> string \<Rightarrow> string list \<Rightarrow> analysis_error option" where
  "check_dirs st outputDir [] = None"
| "check_dirs st outputDir (server # rest) =
     (let serverDir = Join [outputDir, CollectedFilesBaseDir, ''files-'' @ server]
      in case st serverDir of
           StatNotExist \<Rightarrow> Some (CollectionDirNotFound serverDir)
         | StatError \<Rightarrow> Some (CollectionDirStatError serverDir)
         | StatOK \<Rightarrow> check_dirs st outputDir rest)"

definition RunAnalysis :: "analysis_world \<Rightarrow> Config \<Rightarrow> string \<Rightarrow> string \<Rightarrow> bool \<Rightarrow> int
    \<Rightarrow> analysis option" where
  "RunAnalysis aw cfg outputDir diffDir saveDiffs maxConcurrency =
     (case load_manifest aw of
        None \<Rightarrow> Some (no_analysis (Some ManifestLoadError))
      | Some manifest \<Rightarrow>
          (case check_dirs (stat_dir aw) outputDir (Servers cfg) of
             Some err \<Rightarrow> Some (no_analysis (Some err))
           | None \<Rightarrow>
               (let filesToCompare = getFilesToCompare (Servers cfg) manifest
                in if length filesToCompare = 0 then Some (no_analysis None)
                   else if saveDiffs \<and> \<not> diff_dir_ok aw
                   then Some (no_analysis (Some (DiffDirError diffDir)))
                   else if maxConcurrency < 1 then None
                   else
                     (let compared = map (\<lambda>fp. compareSingleFile (files aw) fp (Servers cfg) manifest
                                                 outputDir saveDiffs diffDir) filesToCompare;
                          rs = map fst compared
                      in Some \<lparr>results = rs,
                               effects = concat (map snd compared),
                               totalCompared = length rs,
                               totalIdentical = length (filter (\<lambda>r. \<not> IsDiff r) rs),
                               totalDifferent = length (filter IsDiff rs),
                               anyDiffFound = (\<exists>r \<in> set rs. IsDiff r),
                               failure = None\<rparr>))))"

section \<open>Connecting (package sshutil)\<close>

text \<open>
  \<open>Connect\<close> reads and parses the private key, then dials and performs the SSH
  handshake in a loop of at most \<open>maxRetries\<close> attempts, sleeping \<open>retryDelay\<close>
  seconds before the next attempt, and opens the SFTP client on the connection. The
  remote side is a record: whether the key file can be read, how it parses (with the
  passphrase when one is given, without it otherwise), what attempt number \<open>n\<close>
  meets, whether the SFTP client starts. The handshake of an attempt fails when
  \<open>ssh.NewClientConn\<close> returns an error, for a failure of the transport or because the
  server rejects the key; the source has one branch for both. The dials, handshakes and
  sleeps are recorded in the order they happen.
\<close>

datatype key_parse = KeyParsed | PassphraseMissing | KeyInvalid

datatype handshake_failure = TransportFailure | AuthenticationRejected

datatype attempt = DialFails | HandshakeFails handshake_failure | Established

datatype connect_error =
    ReadKeyError string
  | EncryptedKeyPassphraseError string
  | EncryptedKeyParseError string
  | KeyPassphraseError string
  | KeyParseError string
  | DialError
  | HandshakeError
  | AttemptsError
  | SftpError

datatype net_event = Dial nat | Handshake nat | Sleep nat | NewSftp

datatype loop_exit = Returned connect_error | Connected | LoopEnded

record remote =
  key_readable :: bool
  key_parse :: key_parse
  attempt_outcome :: "nat \<Rightarrow> attempt"
  sftp_ok :: bool

definition maxRetries :: nat where
  "maxRetries = 3"

definition retryDelay :: nat where
  "retryDelay = 2"

function connect_loop :: "(nat \<Rightarrow> attempt) \<Rightarrow> nat \<Rightarrow> loop_exit \<times> net_event list" where
  "connect_loop outcome attempt =
     (if attempt \<le> maxRetries
      then
        (case outcome attempt of
           DialFails \<Rightarrow>
             if attempt < maxRetries
             then (fst (connect_loop outcome (attempt + 1)),
                   [Dial attempt, Sleep retryDelay] @ snd (connect_loop outcome (attempt + 1)))
             else (Returned DialError, [Dial attempt])
         | HandshakeFails cause \<Rightarrow>
             if attempt < maxRetries
             then (fst (connect_loop outcome (attempt + 1)),
                   [Dial attempt, Handshake attempt, Sleep retryDelay]
                     @ snd (connect_loop outcome (attempt + 1)))
             else (Returned HandshakeError, [Dial attempt, Handshake attempt])
         | Established \<Rightarrow> (Connected, [Dial attempt, Handshake attempt]))
      else (LoopEnded, []))"
  by pat_completeness auto
termination
  by (relation "measure (\<lambda>(outcome, attempt). maxRetries + 1 - attempt)") auto

declare connect_loop.simps [simp del]

definition Connect :: "remote \<Rightarrow> string \<Rightarrow> string \<Rightarrow> string \<Rightarrow> string
    \<Rightarrow> (connect_error + string) \<times> net_event list" where
  "Connect r hostname username keyPath keyPassphrase =
     (if \<not> key_readable r then (Inl (ReadKeyError keyPath), [])
      else
        (case key_parse r of
           PassphraseMissing \<Rightarrow>
             if keyPassphrase \<noteq> [] then (Inl (EncryptedKeyPassphraseError keyPath), [])
             else (Inl (KeyPassphraseError keyPath), [])
         | KeyInvalid \<Rightarrow>
             if keyPassphrase \<noteq> [] then (Inl (EncryptedKeyParseError keyPath), [])
             else (Inl (KeyParseError keyPath), [])
         | KeyParsed \<Rightarrow>
             (case connect_loop (attempt_outcome r) 1 of
                (Returned err, trace) \<Rightarrow> (Inl err, trace)
              | (LoopEnded, trace) \<Rightarrow> (Inl AttemptsError, trace)
              | (Connected, trace) \<Rightarrow>
                  if sftp_ok r then (Inr hostname, trace @ [NewSftp])
                  else (Inl SftpError, trace @ [NewSftp]))))"

fun is_Dial :: "net_event \<Rightarrow> bool" where
  "is_Dial (Dial n) = True"
| "is_Dial ev = False"

fun is_Sleep :: "net_event \<Rightarrow> bool" where
  "is_Sleep (Sleep d) = True"
| "is_Sleep ev = False"

section \<open>Collecting from the servers (package collect)\<close>

text \<open>
  The walk over the extracted tree calls \<open>record_walked\<close> on every entry that is not
  a directory, with its slash-separated path relative to the server's directory:
  a marker of a missing path becomes an error record, any other file is fingerprinted.
  \<open>CalculateSHA256\<close> is the function \<open>sha\<close> of the outside world, from a local path
  to the error text or the hexadecimal digest.
\<close>

definition record_walked :: "(string \<Rightarrow> string + string) \<Rightarrow> string \<Rightarrow> string \<Rightarrow> Manifest
    \<Rightarrow> string \<Rightarrow> Manifest" where
  "record_walked sha server serverOutputDir manifest relativePath =
     (if HasSuffix relativePath ''.MISSING'' \<or> HasSuffix relativePath ''DIRECTORY.MISSING''
      then
        (let originalPath =
               TrimSuffix (TrimSuffix relativePath ''.MISSING'') ''DIRECTORY.MISSING''
         in AddFile manifest server originalPath [] ''Missing on remote'')
      else
        (case sha (Join [serverOutputDir, relativePath]) of
           Inl csErr \<Rightarrow> AddFile manifest server relativePath [] csErr
         | Inr checksum \<Rightarrow> AddFile manifest server relativePath checksum []))"

text \<open>
  The markers of \<open>GenerateCollectionScript\<close>. The script touches, for a missing file
  \<open>p\<close>, the staging directory of the user followed at once by \<open>p\<close> and \<open>.MISSING\<close>,
  and for a missing directory \<open>p\<close>, its trailing separators trimmed, the staging
  directory followed at once by \<open>p\<close> and \<open>DIRECTORY.MISSING\<close> (paths of characters
  that neither Go nor the shell quotes). The archive is made inside the staging
  directory, so the walk over the extracted tree meets a remote file under its path
  relative to the staging directory when it lies below it (\<open>archived\<close>); the marker
  of a relative path or of the root directory is touched beside the staging directory
  and is not in the archive.
\<close>

definition TrimRight_sep :: "string \<Rightarrow> string" where
  "TrimRight_sep p = rev (dropWhile (\<lambda>c. c = CHR ''/'') (rev p))"

definition remoteBaseDir :: "string \<Rightarrow> string" where
  "remoteBaseDir username = ''/home/'' @ username @ ''/remote_backup''"

definition file_marker :: "string \<Rightarrow> string \<Rightarrow> string" where
  "file_marker username p = remoteBaseDir username @ p @ ''.MISSING''"

definition dir_marker :: "string \<Rightarrow> string \<Rightarrow> string" where
  "dir_marker username p = remoteBaseDir username @ TrimRight_sep p @ ''DIRECTORY.MISSING''"

definition archived :: "string \<Rightarrow> string \<Rightarrow> string option" where
  "archived username path =
     (let base = Clean (remoteBaseDir username); c = Clean path
      in if HasPrefix c (base @ ''/'') then Some (drop (length base + 1) c) else None)"

text \<open>
  \<open>collectFromServer\<close>: the stages in the order of the source, each with its outcome
  in the outside world of the host. A failure of the script or of the download runs the
  remote cleanup before returning; the walk and the final cleanup cannot fail the host.
  \<open>extracted\<close> is what \<open>util.ExtractTarGz\<close> returns on the downloaded archive,
  \<open>walked\<close> the entries of the extracted tree that are not directories, in the order
  of the walk. The advisory check of sudo access and the \<open>chmod\<close> of the script have
  no part in the result.
\<close>

datatype collect_error =
    ConnectFailed connect_error
  | TempFileFailed
  | ScriptWriteFailed
  | UploadFailed
  | ScriptFailed
  | DownloadFailed
  | OutputDirFailed
  | OpenTarballFailed
  | ExtractFailed extract_error

record host_world =
  remote_side :: remote
  temp_ok :: bool
  write_ok :: bool
  upload_ok :: bool
  script_ok :: bool
  download_ok :: bool
  mkdir_ok :: bool
  open_ok :: bool
  extracted :: "extract_error option"
  walked :: "string list"
  sha :: "string \<Rightarrow> string + string"

record host_result =
  host_error :: "collect_error option"
  host_manifest :: Manifest
  cleaned :: bool

definition collectFromServer :: "host_world \<Rightarrow> string \<Rightarrow> Config \<Rightarrow> string \<Rightarrow> Manifest
    \<Rightarrow> host_result" where
  "collectFromServer hw server cfg outputDir manifest =
     (case fst (Connect (remote_side hw) server (Username (SSHConfig cfg))
                  (KeyPath (SSHConfig cfg)) (KeyPassphrase (SSHConfig cfg))) of
        Inl err \<Rightarrow> \<lparr>host_error = Some (ConnectFailed err), host_manifest = manifest, cleaned = False\<rparr>
      | Inr client \<Rightarrow>
          if \<not> temp_ok hw
          then \<lparr>host_error = Some TempFileFailed, host_manifest = manifest, cleaned = False\<rparr>
          else if \<not> write_ok hw
          then \<lparr>host_error = Some ScriptWriteFailed, host_manifest = manifest, cleaned = False\<rparr>
          else if \<not> upload_ok hw
          then \<lparr>host_error = Some UploadFailed, host_manifest = manifest, cleaned = False\<rparr>
          else if \<not> script_ok hw
          then \<lparr>host_error = Some ScriptFailed, host_manifest = manifest, cleaned = True\<rparr>
          else if \<not> download_ok hw
          then \<lparr>host_error = Some DownloadFailed, host_manifest = manifest, cleaned = True\<rparr>
          else if \<not> mkdir_ok hw
          then \<lparr>host_error = Some OutputDirFailed, host_manifest = manifest, cleaned = False\<rparr>
          else if \<not> open_ok hw
          then \<lparr>host_error = Some OpenTarballFailed, host_manifest = manifest, cleaned = False\<rparr>
          else
            (case extracted hw of
               Some err \<Rightarrow>
                 \<lparr>host_error = Some (ExtractFailed err), host_manifest = manifest, cleaned = False\<rparr>
             | None \<Rightarrow>
                 (let serverOutputDir = Join [outputDir, CollectedFilesBaseDir, ''files-'' @ server]
                  in \<lparr>host_error = None,
                      host_manifest = foldl (record_walked (sha hw) server serverOutputDir)
                                        manifest (walked hw),
                      cleaned = True\<rparr>)))"

text \<open>
  \<open>RunCollection\<close> starts one task per server behind the semaphore, waits for all of
  them, and reads the errors they sent. The tasks are run here one after the other on
  the shared manifest. As in the analysis, a semaphore of size below one blocks every
  task for ever. The manifest is saved when no task sent an error; \<open>save_ok\<close> is the
  outcome of \<open>Save\<close>, and \<open>saved\<close> is the manifest on disk after the run, if any was
  written.
\<close>

record collection =
  success :: bool
  saved :: "Manifest option"

fun collect_all :: "(string \<Rightarrow> host_world) \<Rightarrow> Config \<Rightarrow> string \<Rightarrow> string list
    \<Rightarrow> collect_error list \<times> Manifest \<Rightarrow> collect_error list \<times> Manifest" where
  "collect_all hosts cfg outputDir [] acc = acc"
| "collect_all hosts cfg outputDir (s # rest) acc =
     (let r = collectFromServer (hosts s) s cfg outputDir (snd acc)
      in collect_all hosts cfg outputDir rest
           (case host_error r of
              None \<Rightarrow> (fst acc, host_manifest r)
            | Some err \<Rightarrow> (fst acc @ [err], host_manifest r)))"

definition RunCollection :: "(string \<Rightarrow> host_world) \<Rightarrow> bool \<Rightarrow> Config \<Rightarrow> string \<Rightarrow> int
    \<Rightarrow> collection option" where
  "RunCollection hosts save_ok cfg outputDir maxConcurrency =
     (if Servers cfg \<noteq> [] \<and> maxConcurrency < 1 then None
      else
        (let done = collect_all hosts cfg outputDir (Servers cfg) ([], NewManifest);
             errors = fst done;
             manifest = snd done
         in if errors = []
            then (if save_ok then Some \<lparr>success = True, saved = Some manifest\<rparr>
                  else Some \<lparr>success = False, saved = None\<rparr>)
            else Some \<lparr>success = False, saved = None\<rparr>))"

text \<open>The collection task of a server succeeded: it returned no error.\<close>

definition host_succeeded :: "(string \<Rightarrow> host_world) \<Rightarrow> Config \<Rightarrow> string \<Rightarrow> string \<Rightarrow> bool" where
  "host_succeeded hosts cfg outputDir s =
     (host_error (collectFromServer (hosts s) s cfg outputDir NewManifest) = None)"

section \<open>A manifest and a world to run the definitions on\<close>

definition example_manifest :: Manifest where
  "example_manifest =
     AddFile (AddFile (AddFile NewManifest ''A'' ''f'' ''aa'' []) ''B'' ''f'' ''aa'' [])
       ''A'' ''g'' ''cc'' []"

definition example_config :: Config where
  "example_config =
     \<lparr>Servers = [''A'', ''B''], Files = [''/etc/hosts'', ''/etc/motd''], Dirs = [],
      SSHConfig = \<lparr>Username = ''ops'', KeyPath = ''/home/ops/.ssh/id_ed25519'',
                   KeyPassphrase = []\<rparr>\<rparr>"

definition example_world :: analysis_world where
  "example_world =
     \<lparr>load_manifest = Some example_manifest, stat_dir = (\<lambda>dir. StatOK), diff_dir_ok = True,
      files = \<lparr>missing = (\<lambda>path. False), run_diff = (\<lambda>path1 path2. Exit1 ''-x+y'')\<rparr>\<rparr>"

definition flaky_remote :: remote where
  "flaky_remote =
     \<lparr>key_readable = True, key_parse = KeyParsed,
      attempt_outcome = (\<lambda>n. if n = 1 then DialFails
                              else if n = 2 then HandshakeFails TransportFailure
                              else Established),
      sftp_ok = True\<rparr>"

definition rejecting_remote :: remote where
  "rejecting_remote =
     flaky_remote\<lparr>attempt_outcome := (\<lambda>n. HandshakeFails AuthenticationRejected)\<rparr>"

definition locked_remote :: remote where
  "locked_remote = flaky_remote\<lparr>key_parse := PassphraseMissing\<rparr>"

definition good_host :: host_world where
  "good_host =
     \<lparr>remote_side = flaky_remote, temp_ok = True, write_ok = True, upload_ok = True,
      script_ok = True, download_ok = True, mkdir_ok = True, open_ok = True,
      extracted = None, walked = [''etc/hosts'', ''etc/motd.MISSING''],
      sha = (\<lambda>path. Inr ''0a'')\<rparr>"

definition down_host :: host_world where
  "down_host = good_host\<lparr>remote_side := flaky_remote\<lparr>attempt_outcome := (\<lambda>n. DialFails)\<rparr>\<rparr>"

definition example_hosts :: "string \<Rightarrow> host_world" where
  "example_hosts s = (if s = ''A'' then down_host else good_host)"

definition root_entry :: tar_entry where
  "root_entry = \<lparr>Name = ''./'', Typeflag = TypeDir, Body = Copied []\<rparr>"

definition conf_entry :: tar_entry where
  "conf_entry = \<lparr>Name = ''./etc/foo.conf'', Typeflag = TypeReg, Body = Copied ''x''\<rparr>"

definition full_disk_entry :: tar_entry where
  "full_disk_entry = \<lparr>Name = ''./etc/bar.conf'', Typeflag = TypeReg, Body = WriteFails ''par''\<rparr>"

definition truncated_entry :: tar_entry where
  "truncated_entry = \<lparr>Name = ''./etc/bar.conf'', Typeflag = TypeReg, Body = ReadFails ''par''\<rparr>"

definition escaping_entry :: tar_entry where
  "escaping_entry = \<lparr>Name = ''../../etc/passwd'', Typeflag = TypeReg, Body = Copied ''x''\<rparr>"

definition absolute_entry :: tar_entry where
  "absolute_entry = \<lparr>Name = ''/etc/passwd'', Typeflag = TypeReg, Body = Copied ''x''\<rparr>"

definition parent_entry :: tar_entry where
  "parent_entry = \<lparr>Name = ''../x'', Typeflag = TypeReg, Body = Copied ''x''\<rparr>"

section \<open>The manifest reads back what was added\<close>

lemma GetFileInfo_AddFile_same:
  "GetFileInfo (AddFile m server relativePath checksum fileError) server relativePath =
     (\<lparr>Path = relativePath, Checksum = checksum, Error = fileError\<rparr>, True)"
  by (simp add: GetFileInfo_def AddFile_def Let_def update_conv')

lemma GetFileInfo_AddFile_other:
  "(server', path') \<noteq> (server, relativePath) \<Longrightarrow>
   GetFileInfo (AddFile m server relativePath checksum fileError) server' path' =
     GetFileInfo m server' path'"
  by (auto simp add: GetFileInfo_def AddFile_def Let_def update_conv' split: option.splits)

text \<open>
  Claim C9. For every manifest and every server, relative path, checksum and error text,
  after \<open>AddFile\<close> the call of \<open>GetFileInfo\<close> for that server and path returns the
  record with exactly these fields and \<open>true\<close>, and \<open>GetFileInfo\<close> for every other
  pair of server and path returns what it returned before.
\<close>

theorem AddFile_GetFileInfo:
  "GetFileInfo (AddFile m server relativePath checksum fileError) server relativePath =
     (\<lparr>Path = relativePath, Checksum = checksum, Error = fileError\<rparr>, True) \<and>
   (\<forall>server' path'. (server', path') \<noteq> (server, relativePath) \<longrightarrow>
      GetFileInfo (AddFile m server relativePath checksum fileError) server' path' =
        GetFileInfo m server' path')"
  using GetFileInfo_AddFile_same GetFileInfo_AddFile_other by blast

theorem AddFile_GetFileInfo_witness:
  "GetFileInfo (AddFile (AddFile NewManifest ''A'' ''etc/hosts'' ''0a'' []) ''B'' ''etc/hosts'' ''0b'' [])
       ''B'' ''etc/hosts'' =
     (\<lparr>Path = ''etc/hosts'', Checksum = ''0b'', Error = []\<rparr>, True) \<and>
   (''A'', ''etc/hosts'') \<noteq> (''B'', ''etc/hosts'') \<and>
   GetFileInfo (AddFile (AddFile NewManifest ''A'' ''etc/hosts'' ''0a'' []) ''B'' ''etc/hosts'' ''0b'' [])
       ''A'' ''etc/hosts'' =
     GetFileInfo (AddFile NewManifest ''A'' ''etc/hosts'' ''0a'' []) ''A'' ''etc/hosts''"
proof -
  have h: "(''A'', ''etc/hosts'') \<noteq> (''B'', ''etc/hosts'')" by simp
  note t = AddFile_GetFileInfo [of "AddFile NewManifest ''A'' ''etc/hosts'' ''0a'' []"
        "''B''" "''etc/hosts''" "''0b''" "[]"]
  from t have a: "GetFileInfo (AddFile (AddFile NewManifest ''A'' ''etc/hosts'' ''0a'' []) ''B'' ''etc/hosts'' ''0b'' [])
       ''B'' ''etc/hosts'' =
     (\<lparr>Path = ''etc/hosts'', Checksum = ''0b'', Error = []\<rparr>, True)"
    by (rule conjunct1)
  from t have "(''A'', ''etc/hosts'') \<noteq> (''B'', ''etc/hosts'') \<longrightarrow>
     GetFileInfo (AddFile (AddFile NewManifest ''A'' ''etc/hosts'' ''0a'' []) ''B'' ''etc/hosts'' ''0b'' [])
       ''A'' ''etc/hosts'' =
     GetFileInfo (AddFile NewManifest ''A'' ''etc/hosts'' ''0a'' []) ''A'' ''etc/hosts''"
    by (elim conjE allE)
  with h have b: "GetFileInfo (AddFile (AddFile NewManifest ''A'' ''etc/hosts'' ''0a'' []) ''B'' ''etc/hosts'' ''0b'' [])
       ''A'' ''etc/hosts'' =
     GetFileInfo (AddFile NewManifest ''A'' ''etc/hosts'' ''0a'' []) ''A'' ''etc/hosts''"
    by (rule rev_mp)
  from a h b show ?thesis by (intro conjI)
qed

section \<open>The comparison set\<close>

lemma distinct_count_path: "distinct (snd acc) \<Longrightarrow> distinct (snd (count_path acc kv))"
  by (simp add: count_path_def)

lemma distinct_foldl_count_path:
  "distinct (snd acc) \<Longrightarrow> distinct (snd (foldl count_path acc kvs))"
  by (induction kvs arbitrary: acc) (simp_all add: distinct_count_path)

lemma distinct_count_servers:
  "distinct (snd acc) \<Longrightarrow> distinct (snd (count_servers servers m acc))"
  by (induction servers arbitrary: acc)
     (simp_all add: distinct_foldl_count_path split: option.splits)

lemma getFilesToCompare_distinct: "distinct (getFilesToCompare servers m)"
  by (simp add: getFilesToCompare_def Let_def distinct_count_servers)

lemma getFilesToCompare_sorted: "sorted (getFilesToCompare servers m)"
  by (simp add: getFilesToCompare_def Let_def)

lemma count_of_empty: "count_of Map.empty p = 0"
  by (simp add: count_of_def)

lemma count_of_count_path:
  "count_of (fst (count_path acc kv)) p =
     count_of (fst acc) p + (if fst kv = p \<and> Error (snd kv) = [] then 1 else 0)"
  by (simp add: count_path_def count_of_def split: option.splits)

lemma count_of_foldl_count_path:
  "distinct (map fst kvs) \<Longrightarrow>
   count_of (fst (foldl count_path acc kvs)) p =
     count_of (fst acc) p + (if \<exists>info. (p, info) \<in> set kvs \<and> Error info = [] then 1 else 0)"
proof (induction kvs arbitrary: acc)
  case Nil
  then show ?case by simp
next
  case (Cons kv kvs)
  from Cons.prems have d: "distinct (map fst kvs)" and n: "fst kv \<notin> fst ` set kvs"
    by simp_all
  have "(p, info) \<in> set kvs \<Longrightarrow> p \<in> fst ` set kvs" for info
    by force
  with n have notin: "fst kv = p \<Longrightarrow> (p, info) \<notin> set kvs" for info
    by blast
  show ?case
    using Cons.IH [OF d, of "count_path acc kv"] notin
    by (cases kv) (auto simp add: count_of_count_path)
qed

lemma valid_in_range_map:
  "(\<exists>info. (p, info) \<in> set (range_map sf) \<and> Error info = []) \<longleftrightarrow>
   (case map_of sf p of None \<Rightarrow> False | Some info \<Rightarrow> Error info = [])"
proof -
  have "(p, info) \<in> set (AList.clearjunk sf) \<longleftrightarrow> map_of sf p = Some info" for info
    using map_of_eq_Some_iff [of "AList.clearjunk sf" p info]
    by (simp add: map_of_clearjunk)
  then show ?thesis
    by (auto simp add: range_map_def split: option.splits)
qed

lemma count_of_count_servers:
  "count_of (fst (count_servers servers m acc)) p =
     count_of (fst acc) p + length (filter (valid_on m p) servers)"
proof (induction servers arbitrary: acc)
  case Nil
  then show ?case by simp
next
  case (Cons s servers)
  show ?case
  proof (cases "map_of (FilesByServer m) s")
    case None
    then show ?thesis
      using Cons.IH [of acc] by (simp add: valid_on_def)
  next
    case (Some sf)
    have d: "distinct (map fst (range_map sf))"
      by (simp add: range_map_def)
    show ?thesis
      using Some Cons.IH [of "foldl count_path acc (range_map sf)"]
        count_of_foldl_count_path [OF d, of acc p] valid_in_range_map [of p sf]
      by (simp add: valid_on_def)
  qed
qed

lemma getFilesToCompare_only_common:
  assumes "p \<in> set (getFilesToCompare servers m)"
  shows "\<forall>s \<in> set servers. valid_on m p s"
proof -
  from assms have ne: "servers \<noteq> []"
    by (auto simp add: getFilesToCompare_def)
  from assms ne have "fst (count_servers servers m (Map.empty, [])) p = Some (length servers)"
    by (auto simp add: getFilesToCompare_def Let_def split: option.splits)
  then have "count_of (fst (count_servers servers m (Map.empty, []))) p = length servers"
    by (simp add: count_of_def)
  then have "length (filter (valid_on m p) servers) = length servers"
    by (simp add: count_of_count_servers count_of_empty)
  then show ?thesis
    by (metis filter_id_conv length_filter_less less_irrefl_nat)
qed

lemma in_all_count_path:
  "(p \<in> set (snd acc) \<longleftrightarrow> fst acc p \<noteq> None) \<Longrightarrow>
   (p \<in> set (snd (count_path acc kv)) \<longleftrightarrow> fst (count_path acc kv) p \<noteq> None)"
  by (auto simp add: count_path_def)

lemma in_all_foldl:
  "(p \<in> set (snd acc) \<longleftrightarrow> fst acc p \<noteq> None) \<Longrightarrow>
   (p \<in> set (snd (foldl count_path acc kvs)) \<longleftrightarrow> fst (foldl count_path acc kvs) p \<noteq> None)"
  by (induction kvs arbitrary: acc) (simp_all add: in_all_count_path)

lemma in_all_count_servers:
  "(p \<in> set (snd acc) \<longleftrightarrow> fst acc p \<noteq> None) \<Longrightarrow>
   (p \<in> set (snd (count_servers servers m acc)) \<longleftrightarrow>
      fst (count_servers servers m acc) p \<noteq> None)"
  by (induction servers arbitrary: acc) (simp_all add: in_all_foldl split: option.splits)

lemma set_getFilesToCompare:
  "set (getFilesToCompare servers m) =
     {p. servers \<noteq> [] \<and> (\<forall>s \<in> set servers. valid_on m p s)}"
proof (intro set_eqI iffI)
  fix p assume a: "p \<in> set (getFilesToCompare servers m)"
  then have "servers \<noteq> []" by (auto simp add: getFilesToCompare_def)
  with getFilesToCompare_only_common [OF a]
  show "p \<in> {p. servers \<noteq> [] \<and> (\<forall>s \<in> set servers. valid_on m p s)}" by simp
next
  fix p assume "p \<in> {p. servers \<noteq> [] \<and> (\<forall>s \<in> set servers. valid_on m p s)}"
  then have ne: "servers \<noteq> []" and all: "\<forall>s \<in> set servers. valid_on m p s" by simp_all
  let ?c = "count_servers servers m (Map.empty, [])"
  from all have "length (filter (valid_on m p) servers) = length servers"
    by (simp add: filter_id_conv)
  then have c: "count_of (fst ?c) p = length servers"
    by (simp add: count_of_count_servers count_of_empty)
  with ne have "fst ?c p = Some (length servers)"
    by (cases "fst ?c p") (simp_all add: count_of_def)
  moreover from this have "p \<in> set (snd ?c)"
    using in_all_count_servers [of p "(Map.empty, [])" servers m] by simp
  ultimately show "p \<in> set (getFilesToCompare servers m)"
    using ne by (simp add: getFilesToCompare_def Let_def)
qed


text \<open>
  Claim C10. For every server list and manifest, \<open>getFilesToCompare\<close> returns a list
  without duplicates in ascending lexicographic order, and the empty list for an empty
  server list.
\<close>

theorem getFilesToCompare_sorted_distinct:
  "sorted (getFilesToCompare servers m) \<and> distinct (getFilesToCompare servers m) \<and>
   getFilesToCompare [] m = []"
  by (simp add: getFilesToCompare_sorted getFilesToCompare_distinct)
     (simp add: getFilesToCompare_def)

section \<open>Comparing and analysing\<close>

lemma FilePath_diff_pair:
  "FilePath (fst (diff_pair w filePath fp saveDiffs diffDir acc pair)) = FilePath (fst acc)"
  by (simp add: diff_pair_def Let_def split: diff_run.splits)

lemma FilePath_foldl_diff_pair:
  "FilePath (fst (foldl (diff_pair w filePath fp saveDiffs diffDir) acc pairs)) = FilePath (fst acc)"
  by (induction pairs arbitrary: acc) (simp_all add: FilePath_diff_pair)

lemma FilePath_compareSingleFile:
  "FilePath (fst (compareSingleFile w filePath servers m base saveDiffs diffDir)) = filePath"
  by (simp add: compareSingleFile_def Let_def FilePath_foldl_diff_pair)

lemma results_RunAnalysis:
  assumes "RunAnalysis aw cfg outputDir diffDir saveDiffs maxConcurrency = Some a"
    and "load_manifest aw = Some m"
  shows "FilePath ` set (results a) \<subseteq> set (getFilesToCompare (Servers cfg) m)"
  using assms
  by (auto simp add: RunAnalysis_def Let_def no_analysis_def FilePath_compareSingleFile
      split: option.splits if_splits)

text \<open>
  Claim C7. A relative path for which some server of the configured list holds no record
  with an empty error text (the path is valid on a strict subset of the servers only) is
  not in the list that \<open>getFilesToCompare\<close> returns, and no result of an analysis run
  on that manifest carries the path, neither as different nor as identical.
\<close>

theorem partial_path_excluded:
  assumes "s \<in> set servers" and "\<not> valid_on m p s"
  shows "p \<notin> set (getFilesToCompare servers m) \<and>
         (\<forall>aw cfg outputDir diffDir saveDiffs maxConcurrency a.
            Servers cfg = servers \<longrightarrow>
            load_manifest aw = Some m \<longrightarrow>
            RunAnalysis aw cfg outputDir diffDir saveDiffs maxConcurrency = Some a \<longrightarrow>
            p \<notin> FilePath ` set (results a))"
proof -
  from assms have notin: "p \<notin> set (getFilesToCompare servers m)"
    using getFilesToCompare_only_common [of p servers m] by blast
  then show ?thesis
    using results_RunAnalysis by blast
qed

theorem partial_path_excluded_witness:
  "''B'' \<in> set [''A'', ''B''] \<and> \<not> valid_on example_manifest ''g'' ''B'' \<and>
   Servers example_config = [''A'', ''B''] \<and>
   load_manifest example_world = Some example_manifest \<and>
   RunAnalysis example_world example_config ''.'' ''out'' False 10 \<noteq> None \<and>
   ''g'' \<notin> set (getFilesToCompare [''A'', ''B''] example_manifest) \<and>
   ''g'' \<notin> FilePath ` set (results (the (RunAnalysis example_world example_config ''.'' ''out'' False 10)))"
proof -
  have h1: "''B'' \<in> set [''A'', ''B'']" by simp
  have h2: "\<not> valid_on example_manifest ''g'' ''B''"
    by (simp add: example_manifest_def valid_on_def AddFile_def NewManifest_def)
  have h0: "Servers example_config = [''A'', ''B'']"
    by (simp add: example_config_def)
  have h3: "load_manifest example_world = Some example_manifest"
    by (simp add: example_world_def)
  have h4: "RunAnalysis example_world example_config ''.'' ''out'' False 10 \<noteq> None"
    by code_simp
  then have h5: "RunAnalysis example_world example_config ''.'' ''out'' False 10 =
      Some (the (RunAnalysis example_world example_config ''.'' ''out'' False 10))"
    by simp
  note t = partial_path_excluded [OF h1 h2]
  from t have a: "''g'' \<notin> set (getFilesToCompare [''A'', ''B''] example_manifest)"
    by (rule conjunct1)
  from t have "Servers example_config = [''A'', ''B''] \<longrightarrow>
      load_manifest example_world = Some example_manifest \<longrightarrow>
      RunAnalysis example_world example_config ''.'' ''out'' False 10 =
        Some (the (RunAnalysis example_world example_config ''.'' ''out'' False 10)) \<longrightarrow>
      ''g'' \<notin> FilePath ` set (results (the (RunAnalysis example_world example_config ''.'' ''out'' False 10)))"
    by (elim conjE allE)
  with h0 h3 h5 have b: "''g'' \<notin> FilePath ` set (results (the (RunAnalysis example_world example_config ''.'' ''out'' False 10)))"
    by (elim impE)
  from h1 h2 h0 h3 h4 a b show ?thesis by (intro conjI)
qed

lemma gather_all_match:
  assumes "\<forall>s \<in> set servers. snd (GetFileInfo m s filePath) \<and>
             Error (fst (GetFileInfo m s filePath)) = [] \<and>
             Checksum (fst (GetFileInfo m s filePath)) = c"
    and "c \<noteq> []"
    and "foundOnAll g" and "allMatch g" and "errorsFound g = []"
    and "i \<noteq> 0 \<longrightarrow> firstChecksum g = c"
  shows "foundOnAll (gather filePath m base i servers g) \<and>
         allMatch (gather filePath m base i servers g) \<and>
         errorsFound (gather filePath m base i servers g) = []"
  using assms
proof (induction servers arbitrary: i g)
  case Nil
  then show ?case by simp
next
  case (Cons s servers)
  let ?g1 = "g\<lparr>filePaths := AList.update s
                 (Join [base, CollectedFilesBaseDir, ''files-'' @ s, filePath]) (filePaths g)\<rparr>"
  let ?g2 = "if i = 0 then ?g1\<lparr>firstChecksum := c\<rparr> else ?g1"
  from Cons.prems have here: "snd (GetFileInfo m s filePath)"
      "Error (fst (GetFileInfo m s filePath)) = []"
      "Checksum (fst (GetFileInfo m s filePath)) = c"
    by simp_all
  have step: "gather filePath m base i (s # servers) g = gather filePath m base (i + 1) servers ?g2"
    using here Cons.prems(2,6) by (simp add: Let_def)
  have "foundOnAll (gather filePath m base (i + 1) servers ?g2) \<and>
        allMatch (gather filePath m base (i + 1) servers ?g2) \<and>
        errorsFound (gather filePath m base (i + 1) servers ?g2) = []"
    using Cons.prems by (intro Cons.IH) simp_all
  with step show ?case by simp
qed

text \<open>
  Claim C4. When every server of the list has a manifest record of the path with no error
  and the same non-empty checksum, \<open>compareSingleFile\<close> reports that the file does not
  differ and never runs the content diff: it has no effect at all.
\<close>

theorem equal_checksums_no_diff:
  assumes "\<forall>s \<in> set servers. snd (GetFileInfo m s filePath) \<and>
             Error (fst (GetFileInfo m s filePath)) = [] \<and>
             Checksum (fst (GetFileInfo m s filePath)) = c"
    and "c \<noteq> []"
  shows "compareSingleFile w filePath servers m base saveDiffs diffDir =
           (\<lparr>FilePath = filePath, IsDiff = False, Diffs = [], Errors = []\<rparr>, []) \<and>
         diff_invocations (snd (compareSingleFile w filePath servers m base saveDiffs diffDir)) = 0"
proof -
  let ?g0 = "\<lparr>filePaths = [], errorsFound = [], foundOnAll = True,
              firstChecksum = [], allMatch = True\<rparr>"
  have "foundOnAll (gather filePath m base 0 servers ?g0) \<and>
        allMatch (gather filePath m base 0 servers ?g0) \<and>
        errorsFound (gather filePath m base 0 servers ?g0) = []"
    using assms by (intro gather_all_match) simp_all
  then show ?thesis
    by (simp add: compareSingleFile_def Let_def diff_invocations_def)
qed


theorem equal_checksums_no_diff_witness:
  "(snd (GetFileInfo example_manifest ''A'' ''f'') \<and>
    Error (fst (GetFileInfo example_manifest ''A'' ''f'')) = [] \<and>
    Checksum (fst (GetFileInfo example_manifest ''A'' ''f'')) = ''aa'') \<and>
   (snd (GetFileInfo example_manifest ''B'' ''f'') \<and>
    Error (fst (GetFileInfo example_manifest ''B'' ''f'')) = [] \<and>
    Checksum (fst (GetFileInfo example_manifest ''B'' ''f'')) = ''aa'') \<and>
   ''aa'' \<noteq> [] \<and>
   compareSingleFile (files example_world) ''f'' [''A'', ''B''] example_manifest ''.'' True ''out'' =
     (\<lparr>FilePath = ''f'', IsDiff = False, Diffs = [], Errors = []\<rparr>, [])"
proof -
  have a: "snd (GetFileInfo example_manifest ''A'' ''f'') \<and>
    Error (fst (GetFileInfo example_manifest ''A'' ''f'')) = [] \<and>
    Checksum (fst (GetFileInfo example_manifest ''A'' ''f'')) = ''aa''"
    by (simp add: example_manifest_def GetFileInfo_def AddFile_def NewManifest_def)
  have b: "snd (GetFileInfo example_manifest ''B'' ''f'') \<and>
    Error (fst (GetFileInfo example_manifest ''B'' ''f'')) = [] \<and>
    Checksum (fst (GetFileInfo example_manifest ''B'' ''f'')) = ''aa''"
    by (simp add: example_manifest_def GetFileInfo_def AddFile_def NewManifest_def)
  from a b have h1: "\<forall>s \<in> set [''A'', ''B'']. snd (GetFileInfo example_manifest s ''f'') \<and>
       Error (fst (GetFileInfo example_manifest s ''f'')) = [] \<and>
       Checksum (fst (GetFileInfo example_manifest s ''f'')) = ''aa''"
    by simp
  have h2: "''aa'' \<noteq> []" by simp
  note t = equal_checksums_no_diff [OF h1 h2, of "files example_world" "''.''" True "''out''"]
  from t have c: "compareSingleFile (files example_world) ''f'' [''A'', ''B''] example_manifest
      ''.'' True ''out'' = (\<lparr>FilePath = ''f'', IsDiff = False, Diffs = [], Errors = []\<rparr>, [])"
    by (rule conjunct1)
  from a b h2 c show ?thesis by simp
qed


section \<open>The collection run\<close>

lemma host_error_manifest:
  "host_error (collectFromServer hw s cfg outputDir m) =
   host_error (collectFromServer hw s cfg outputDir m')"
  by (simp add: collectFromServer_def Let_def split: sum.splits option.splits)

lemma collect_all_errors:
  "fst (collect_all hosts cfg outputDir servers acc) = [] \<longleftrightarrow>
     fst acc = [] \<and> (\<forall>s \<in> set servers. host_succeeded hosts cfg outputDir s)"
proof (induction servers arbitrary: acc)
  case Nil
  then show ?case by simp
next
  case (Cons s servers)
  have e: "host_error (collectFromServer (hosts s) s cfg outputDir (snd acc)) =
           host_error (collectFromServer (hosts s) s cfg outputDir NewManifest)"
    by (rule host_error_manifest)
  show ?case
  proof (cases "host_error (collectFromServer (hosts s) s cfg outputDir (snd acc))")
    case None
    with e show ?thesis
      by (simp add: Cons.IH Let_def host_succeeded_def)
  next
    case (Some err)
    with e have "host_error (collectFromServer (hosts s) s cfg outputDir NewManifest) = Some err"
      by simp
    with Some show ?thesis
      by (simp add: Cons.IH Let_def host_succeeded_def)
  qed
qed

text \<open>
  Claim C6. A collection run that returns reports success only if the collection task of
  every server succeeded (and the manifest could be saved), and a manifest is on disk
  after the run exactly when the run reports success: if the collection of any server
  fails, no manifest is written.
\<close>

theorem collection_success:
  assumes "RunCollection hosts save_ok cfg outputDir maxConcurrency = Some r"
  shows "success r =
           (save_ok \<and> (\<forall>s \<in> set (Servers cfg). host_succeeded hosts cfg outputDir s)) \<and>
         (saved r \<noteq> None) = success r"
proof -
  have "fst (collect_all hosts cfg outputDir (Servers cfg) ([], NewManifest)) = [] \<longleftrightarrow>
        (\<forall>s \<in> set (Servers cfg). host_succeeded hosts cfg outputDir s)"
    by (simp add: collect_all_errors)
  with assms show ?thesis
    by (auto simp add: RunCollection_def Let_def split: if_splits)
qed

theorem collection_success_witness:
  "RunCollection example_hosts True example_config ''.'' 10 = Some \<lparr>success = False, saved = None\<rparr> \<and>
   \<not> host_succeeded example_hosts example_config ''.'' ''A'' \<and> host_succeeded example_hosts example_config ''.'' ''B'' \<and>
   success \<lparr>success = False, saved = None\<rparr> =
     (True \<and> (\<forall>s \<in> set (Servers example_config). host_succeeded example_hosts example_config ''.'' s)) \<and>
   (saved \<lparr>success = False, saved = None\<rparr> \<noteq> None) = success \<lparr>success = False, saved = None\<rparr>"
proof -
  have h: "RunCollection example_hosts True example_config ''.'' 10 =
      Some \<lparr>success = False, saved = None\<rparr>"
    by code_simp
  have a: "\<not> host_succeeded example_hosts example_config ''.'' ''A''"
    by code_simp
  have b: "host_succeeded example_hosts example_config ''.'' ''B''"
    by code_simp
  from h a b collection_success [OF h] show ?thesis by (intro conjI) simp_all
qed

text \<open>
  A run with a semaphore of size at least one returns; with a size below one and a
  server to collect from it does not.
\<close>

lemma RunCollection_returns:
  "1 \<le> maxConcurrency \<Longrightarrow>
   \<exists>r. RunCollection hosts save_ok cfg outputDir maxConcurrency = Some r"
  by (simp add: RunCollection_def Let_def)

lemma RunCollection_blocks:
  "Servers cfg \<noteq> [] \<Longrightarrow> maxConcurrency < 1 \<Longrightarrow>
   RunCollection hosts save_ok cfg outputDir maxConcurrency = None"
  by (simp add: RunCollection_def)

lemma RunAnalysis_returns:
  "1 \<le> maxConcurrency \<Longrightarrow>
   \<exists>a. RunAnalysis aw cfg outputDir diffDir saveDiffs maxConcurrency = Some a"
  by (simp add: RunAnalysis_def Let_def split: option.splits)

section \<open>Connecting with retries\<close>

lemma connect_loop_last:
  "attempt = maxRetries \<Longrightarrow>
   connect_loop outcome attempt =
     (case outcome attempt of
        DialFails \<Rightarrow> (Returned DialError, [Dial attempt])
      | HandshakeFails cause \<Rightarrow> (Returned HandshakeError, [Dial attempt, Handshake attempt])
      | Established \<Rightarrow> (Connected, [Dial attempt, Handshake attempt]))"
  by (subst connect_loop.simps) (simp split: attempt.splits)

lemma connect_loop_retry:
  "attempt < maxRetries \<Longrightarrow>
   connect_loop outcome attempt =
     (case outcome attempt of
        DialFails \<Rightarrow> (fst (connect_loop outcome (attempt + 1)),
                      [Dial attempt, Sleep retryDelay] @ snd (connect_loop outcome (attempt + 1)))
      | HandshakeFails cause \<Rightarrow> (fst (connect_loop outcome (attempt + 1)),
                      [Dial attempt, Handshake attempt, Sleep retryDelay]
                        @ snd (connect_loop outcome (attempt + 1)))
      | Established \<Rightarrow> (Connected, [Dial attempt, Handshake attempt]))"
  by (subst connect_loop.simps) (simp split: attempt.splits)

lemma connect_loop_3: "connect_loop outcome 3 =
     (case outcome 3 of
        DialFails \<Rightarrow> (Returned DialError, [Dial 3])
      | HandshakeFails cause \<Rightarrow> (Returned HandshakeError, [Dial 3, Handshake 3])
      | Established \<Rightarrow> (Connected, [Dial 3, Handshake 3]))"
  by (rule connect_loop_last) (simp add: maxRetries_def)

lemma connect_loop_2: "connect_loop outcome 2 =
     (case outcome 2 of
        DialFails \<Rightarrow> (fst (connect_loop outcome 3),
                      [Dial 2, Sleep 2] @ snd (connect_loop outcome 3))
      | HandshakeFails cause \<Rightarrow> (fst (connect_loop outcome 3),
                      [Dial 2, Handshake 2, Sleep 2] @ snd (connect_loop outcome 3))
      | Established \<Rightarrow> (Connected, [Dial 2, Handshake 2]))"
  by (subst connect_loop_retry)
     (simp_all add: maxRetries_def retryDelay_def split: attempt.splits)

lemma connect_loop_1: "connect_loop outcome (Suc 0) =
     (case outcome (Suc 0) of
        DialFails \<Rightarrow> (fst (connect_loop outcome 2),
                      [Dial (Suc 0), Sleep 2] @ snd (connect_loop outcome 2))
      | HandshakeFails cause \<Rightarrow> (fst (connect_loop outcome 2),
                      [Dial (Suc 0), Handshake (Suc 0), Sleep 2] @ snd (connect_loop outcome 2))
      | Established \<Rightarrow> (Connected, [Dial (Suc 0), Handshake (Suc 0)]))"
  by (subst connect_loop_retry)
     (simp_all add: maxRetries_def retryDelay_def numeral_2_eq_2 [symmetric]
        split: attempt.splits)

lemmas connect_loop_unfold = connect_loop_1 connect_loop_2 connect_loop_3

lemma loop_dials:
  "length (filter is_Dial (snd (connect_loop outcome 1))) \<le> 3"
  by (simp add: connect_loop_unfold split: attempt.splits)

lemma loop_sleeps:
  "filter is_Sleep (snd (connect_loop outcome 1)) =
     replicate (length (filter is_Dial (snd (connect_loop outcome 1))) - 1) (Sleep 2)"
  by (simp add: connect_loop_unfold split: attempt.splits)

lemma loop_retry:
  "Dial (Suc n) \<in> set (snd (connect_loop outcome 1)) \<Longrightarrow> 0 < n \<Longrightarrow>
     outcome n \<noteq> Established"
  by (auto simp add: connect_loop_unfold split: attempt.splits)

lemma loop_retried:
  assumes "0 < n" and "n < 3" and "Dial n \<in> set (snd (connect_loop outcome 1))"
    and "outcome n \<noteq> Established"
  shows "Dial (Suc n) \<in> set (snd (connect_loop outcome 1))"
proof -
  have d2: "Dial 2 \<in> set (snd (connect_loop outcome 2))"
    by (cases "outcome 2") (simp_all add: connect_loop_2)
  have d3: "outcome 2 \<noteq> Established \<Longrightarrow> Dial 3 \<in> set (snd (connect_loop outcome 2))"
    by (cases "outcome 2"; cases "outcome 3") (simp_all add: connect_loop_2 connect_loop_3)
  from assms(1,2) consider "n = Suc 0" | "n = 2" by linarith
  then show ?thesis
  proof cases
    case 1
    then have e: "Suc n = 2" by simp
    from assms(4) 1 d2 show ?thesis
      unfolding e by (cases "outcome (Suc 0)") (simp_all add: connect_loop_1)
  next
    case 2
    then have e: "Suc n = 3" by simp
    from assms(3) 2 have "outcome (Suc 0) \<noteq> Established"
      by (cases "outcome (Suc 0)") (simp_all add: connect_loop_1)
    with d3 assms(4) 2 show ?thesis
      unfolding e by (cases "outcome (Suc 0)") (simp_all add: connect_loop_1)
  qed
qed

lemma loop_backoff:
  "0 < i \<Longrightarrow> i < length (snd (connect_loop outcome 1)) \<Longrightarrow>
   is_Dial (snd (connect_loop outcome 1) ! i) \<Longrightarrow>
   snd (connect_loop outcome 1) ! (i - 1) = Sleep 2"
  by (auto simp add: connect_loop_unfold nth_Cons' split: attempt.splits if_splits)


lemma Connect_trace:
  "snd (Connect r h u k pw) = [] \<or>
   snd (Connect r h u k pw) = snd (connect_loop (attempt_outcome r) 1) \<or>
   snd (Connect r h u k pw) = snd (connect_loop (attempt_outcome r) 1) @ [NewSftp]"
  by (simp add: Connect_def split: key_parse.splits prod.splits loop_exit.splits)

lemma Connect_key_failure:
  "\<not> key_readable r \<or> key_parse r \<noteq> KeyParsed \<Longrightarrow>
   snd (Connect r h u k pw) = [] \<and> isl (fst (Connect r h u k pw))"
  by (cases "key_parse r") (auto simp add: Connect_def)

lemma Connect_dials: "length (filter is_Dial (snd (Connect r h u k pw))) \<le> 3"
  using Connect_trace [of r h u k pw] loop_dials [of "attempt_outcome r"] by auto

lemma Connect_sleeps:
  "filter is_Sleep (snd (Connect r h u k pw)) =
     replicate (length (filter is_Dial (snd (Connect r h u k pw))) - 1) (Sleep 2)"
  using Connect_trace [of r h u k pw] loop_sleeps [of "attempt_outcome r"] by auto

lemma Connect_retry:
  "0 < n \<Longrightarrow> Dial (Suc n) \<in> set (snd (Connect r h u k pw)) \<Longrightarrow> attempt_outcome r n \<noteq> Established"
  using Connect_trace [of r h u k pw] loop_retry [of n "attempt_outcome r"] by auto

lemma Connect_retried:
  "0 < n \<Longrightarrow> n < 3 \<Longrightarrow> Dial n \<in> set (snd (Connect r h u k pw)) \<Longrightarrow>
   attempt_outcome r n \<noteq> Established \<Longrightarrow> Dial (Suc n) \<in> set (snd (Connect r h u k pw))"
  using Connect_trace [of r h u k pw] loop_retried [of n "attempt_outcome r"] by auto

lemma Connect_backoff:
  assumes "0 < i" and "i < length (snd (Connect r h u k pw))" and "is_Dial (snd (Connect r h u k pw) ! i)"
  shows "snd (Connect r h u k pw) ! (i - 1) = Sleep 2"
proof -
  let ?t = "snd (connect_loop (attempt_outcome r) 1)"
  from Connect_trace [of r h u k pw] assms(2)
  consider "snd (Connect r h u k pw) = ?t" | "snd (Connect r h u k pw) = ?t @ [NewSftp]"
    by auto
  then show ?thesis
  proof cases
    case 1
    with assms loop_backoff [of i "attempt_outcome r"] show ?thesis by simp
  next
    case 2
    with assms(3) have "i \<noteq> length ?t" by (auto simp add: nth_append)
    with 2 assms(2) have lt: "i < length ?t" by simp
    with 2 assms(3) have "is_Dial (?t ! i)" by (simp add: nth_append)
    with assms(1) lt have "?t ! (i - 1) = Sleep 2" by (rule loop_backoff)
    with 2 lt show ?thesis by (simp add: nth_append)
  qed
qed

text \<open>
  Claim C8, as the code has it. The claim says that authentication failures are not
  retried. The loop does not look at the kind of the error of \<open>ssh.NewClientConn\<close>: a
  server that rejects the key at every attempt is dialled three times, with both sleeps.
\<close>

theorem rejected_key_retried:
  "attempt_outcome rejecting_remote 1 = HandshakeFails AuthenticationRejected \<and>
   attempt_outcome rejecting_remote 2 = HandshakeFails AuthenticationRejected \<and>
   attempt_outcome rejecting_remote 3 = HandshakeFails AuthenticationRejected \<and>
   Connect rejecting_remote ''h'' ''ops'' ''id'' [] =
     (Inl HandshakeError,
      [Dial 1, Handshake 1, Sleep 2, Dial 2, Handshake 2, Sleep 2, Dial 3, Handshake 3])"
  by code_simp

text \<open>
  Claim C8, amended. \<open>Connect\<close> dials at most three times; the sleeps are all of two
  seconds, one fewer than the dials, and every dial after the first comes right after
  such a sleep; attempt \<open>n + 1\<close> is made only when attempt \<open>n\<close> failed, and a failed
  first or second attempt is always followed by the next one, whether the dial failed,
  the transport of the handshake failed or the server rejected the key; when the
  private key cannot be read or parsed the call fails at once, without any dial or
  sleep.
\<close>

theorem Connect_retries:
  "length (filter is_Dial (snd (Connect r hostname username keyPath keyPassphrase))) \<le> 3 \<and>
   filter is_Sleep (snd (Connect r hostname username keyPath keyPassphrase)) =
     replicate (length (filter is_Dial (snd (Connect r hostname username keyPath keyPassphrase))) - 1)
       (Sleep 2) \<and>
   (\<forall>i. 0 < i \<and> i < length (snd (Connect r hostname username keyPath keyPassphrase)) \<and>
        is_Dial (snd (Connect r hostname username keyPath keyPassphrase) ! i) \<longrightarrow>
        snd (Connect r hostname username keyPath keyPassphrase) ! (i - 1) = Sleep 2) \<and>
   (\<forall>n. 0 < n \<and> Dial (Suc n) \<in> set (snd (Connect r hostname username keyPath keyPassphrase)) \<longrightarrow>
        attempt_outcome r n \<noteq> Established) \<and>
   (\<forall>n. 0 < n \<and> n < 3 \<and>
        Dial n \<in> set (snd (Connect r hostname username keyPath keyPassphrase)) \<and>
        attempt_outcome r n \<noteq> Established \<longrightarrow>
        Dial (Suc n) \<in> set (snd (Connect r hostname username keyPath keyPassphrase))) \<and>
   (\<not> key_readable r \<or> key_parse r \<noteq> KeyParsed \<longrightarrow>
        snd (Connect r hostname username keyPath keyPassphrase) = [] \<and>
        isl (fst (Connect r hostname username keyPath keyPassphrase)))"
  using Connect_dials [of r hostname username keyPath keyPassphrase]
    Connect_sleeps [of r hostname username keyPath keyPassphrase]
    Connect_backoff [of _ r hostname username keyPath keyPassphrase]
    Connect_retry [of _ r hostname username keyPath keyPassphrase]
    Connect_retried [of _ r hostname username keyPath keyPassphrase]
    Connect_key_failure [of r hostname username keyPath keyPassphrase]
  by blast

lemma flaky_trace:
  "Connect flaky_remote ''h'' ''ops'' ''id'' [] =
     (Inr ''h'', [Dial 1, Sleep 2, Dial 2, Handshake 2, Sleep 2, Dial 3, Handshake 3, NewSftp])"
  by code_simp

lemma locked_trace: "Connect locked_remote ''h'' ''ops'' ''id'' [] = (Inl (KeyPassphraseError ''id''), [])"
  by code_simp

theorem Connect_retries_witness:
  "snd (Connect flaky_remote ''h'' ''ops'' ''id'' []) =
     [Dial 1, Sleep 2, Dial 2, Handshake 2, Sleep 2, Dial 3, Handshake 3, NewSftp] \<and>
   (0 < (2::nat) \<and> 2 < length (snd (Connect flaky_remote ''h'' ''ops'' ''id'' [])) \<and>
      is_Dial (snd (Connect flaky_remote ''h'' ''ops'' ''id'' []) ! 2)) \<and>
   snd (Connect flaky_remote ''h'' ''ops'' ''id'' []) ! (2 - 1) = Sleep 2 \<and>
   (0 < (1::nat) \<and> Dial (Suc 1) \<in> set (snd (Connect flaky_remote ''h'' ''ops'' ''id'' []))) \<and>
   attempt_outcome flaky_remote 1 \<noteq> Established \<and>
   (0 < (2::nat) \<and> (2::nat) < 3 \<and>
      Dial 2 \<in> set (snd (Connect flaky_remote ''h'' ''ops'' ''id'' [])) \<and>
      attempt_outcome flaky_remote 2 \<noteq> Established) \<and>
   Dial (Suc 2) \<in> set (snd (Connect flaky_remote ''h'' ''ops'' ''id'' [])) \<and>
   key_parse locked_remote \<noteq> KeyParsed \<and>
   snd (Connect locked_remote ''h'' ''ops'' ''id'' []) = [] \<and>
   isl (fst (Connect locked_remote ''h'' ''ops'' ''id'' []))"
proof -
  have t: "snd (Connect flaky_remote ''h'' ''ops'' ''id'' []) =
     [Dial 1, Sleep 2, Dial 2, Handshake 2, Sleep 2, Dial 3, Handshake 3, NewSftp]"
    by (simp add: flaky_trace)
  have h1: "0 < (2::nat) \<and> 2 < length (snd (Connect flaky_remote ''h'' ''ops'' ''id'' [])) \<and>
      is_Dial (snd (Connect flaky_remote ''h'' ''ops'' ''id'' []) ! 2)"
    by (simp add: t)
  have h2: "0 < (1::nat) \<and> Dial (Suc 1) \<in> set (snd (Connect flaky_remote ''h'' ''ops'' ''id'' []))"
    by (simp add: t)
  have h4: "0 < (2::nat) \<and> (2::nat) < 3 \<and>
      Dial 2 \<in> set (snd (Connect flaky_remote ''h'' ''ops'' ''id'' [])) \<and>
      attempt_outcome flaky_remote 2 \<noteq> Established"
    by (simp add: t) (simp add: flaky_remote_def)
  have h3: "key_parse locked_remote \<noteq> KeyParsed"
    by (simp add: locked_remote_def)
  note a = Connect_retries [of flaky_remote "''h''" "''ops''" "''id''" "[]"]
  note b = Connect_retries [of locked_remote "''h''" "''ops''" "''id''" "[]"]
  from a h1 have c1: "snd (Connect flaky_remote ''h'' ''ops'' ''id'' []) ! (2 - 1) = Sleep 2"
    by blast
  from a h2 have c2: "attempt_outcome flaky_remote 1 \<noteq> Established" by blast
  from a h4 have c4: "Dial (Suc 2) \<in> set (snd (Connect flaky_remote ''h'' ''ops'' ''id'' []))"
    by blast
  from b h3 have c3: "snd (Connect locked_remote ''h'' ''ops'' ''id'' []) = [] \<and>
      isl (fst (Connect locked_remote ''h'' ''ops'' ''id'' []))"
    by blast
  from t h1 c1 h2 c2 h4 c4 h3 c3 show ?thesis by blast
qed


section \<open>Extraction stays inside the destination\<close>

lemma mkdirs_kept:
  "mkdirs ps fs = Some fs' \<Longrightarrow> fs' p = fs p \<or> (fs p = None \<and> fs' p = Some DirNode)"
proof (induction ps arbitrary: fs)
  case Nil
  then show ?case by simp
next
  case (Cons q ps)
  show ?case
  proof (cases "fs q")
    case None
    with Cons.prems have "mkdirs ps (fs(q \<mapsto> DirNode)) = Some fs'" by simp
    from Cons.IH [OF this] None show ?thesis by (auto split: if_splits)
  next
    case (Some n)
    with Cons.prems have "n = DirNode" and "mkdirs ps fs = Some fs'"
      by (cases n; simp)+
    from Cons.IH [OF this(2)] show ?thesis .
  qed
qed

lemma MkdirAll_kept:
  assumes "MkdirAll path fs = Some fs'"
  shows "fs' p = fs p \<or> (fs p = None \<and> fs' p = Some DirNode)"
proof -
  from assms have "mkdirs (ancestors [] path @ [path]) fs = Some fs'"
    by (simp add: MkdirAll_def split: if_splits)
  then show ?thesis by (rule mkdirs_kept)
qed

lemma OpenFile_trunc_other:
  "OpenFile_trunc target fs = Some fs' \<Longrightarrow> p \<noteq> target \<Longrightarrow> fs' p = fs p"
  by (auto simp add: OpenFile_trunc_def split: option.splits node.splits)

subsection \<open>Resolved paths\<close>

text \<open>
  \<open>filepath.Clean\<close> returns the elements of the resolved path, joined by separators;
  resolving its result again changes nothing.
\<close>

lemma split_sep_append:
  "split_sep cur (xs @ CHR ''/'' # ys) = split_sep cur xs @ split_sep [] ys"
  by (induction xs arbitrary: cur) simp_all

lemma clean_elems_append:
  "clean_elems rooted out (es @ fs) =
     clean_elems rooted (rev (clean_elems rooted out es)) fs"
  by (induction es arbitrary: out) (auto split: list.splits)

lemma split_sep_no_sep:
  "e \<in> set (split_sep cur s) \<Longrightarrow> CHR ''/'' \<notin> set cur \<Longrightarrow> CHR ''/'' \<notin> set e"
proof (induction s arbitrary: cur)
  case Nil
  then show ?case by auto
next
  case (Cons c cs)
  show ?case
  proof (cases "c = CHR ''/''")
    case True
    with Cons.prems have "e = rev cur \<or> e \<in> set (split_sep [] cs)" by simp
    then show ?thesis
    proof
      assume "e = rev cur"
      with Cons.prems(2) show ?thesis by simp
    next
      assume "e \<in> set (split_sep [] cs)"
      from Cons.IH [OF this] show ?thesis by simp
    qed
  next
    case False
    with Cons.prems have "e \<in> set (split_sep (c # cur) cs)" by simp
    from Cons.IH [OF this] False Cons.prems(2) show ?thesis by auto
  qed
qed

lemma split_sep_nonempty: "split_sep cur s \<noteq> []"
  by (induction s arbitrary: cur) simp_all

lemma split_sep_plain: "CHR ''/'' \<notin> set e \<Longrightarrow> split_sep cur e = [rev cur @ e]"
  by (induction e arbitrary: cur) auto

lemma split_join:
  "es \<noteq> [] \<Longrightarrow> \<forall>e\<in>set es. CHR ''/'' \<notin> set e \<Longrightarrow> split_sep [] (join_sep es) = es"
proof (induction es rule: join_sep.induct)
  case 1
  then show ?case by simp
next
  case (2 e)
  then show ?case by (simp add: split_sep_plain)
next
  case (3 e e' es)
  have "join_sep (e # e' # es) = e @ CHR ''/'' # join_sep (e' # es)" by simp
  with 3 show ?case by (simp only: split_sep_append) (simp add: split_sep_plain)
qed

lemma all_dots_names_on_top: "\<forall>x\<in>set b. x = ''..'' \<Longrightarrow> names_on_top b"
  by (induction b) simp_all

lemma names_on_top_append: "names_on_top (a @ b) \<Longrightarrow> names_on_top b"
  by (induction a) (auto split: if_splits intro: all_dots_names_on_top)

lemma names_on_top_no_dots:
  "names_on_top (a @ b) \<Longrightarrow> b \<noteq> [] \<Longrightarrow> hd b \<noteq> ''..'' \<Longrightarrow> ''..'' \<notin> set a"
  by (induction a) (auto split: if_splits)

lemma clean_elems_stack:
  "clean_stack r out \<Longrightarrow> \<forall>e\<in>set es. CHR ''/'' \<notin> set e \<Longrightarrow>
   clean_stack r (rev (clean_elems r out es))"
proof (induction es arbitrary: out)
  case Nil
  then show ?case by simp
next
  case (Cons e es)
  from Cons.prems(2) have es: "\<forall>e\<in>set es. CHR ''/'' \<notin> set e" and e: "CHR ''/'' \<notin> set e"
    by simp_all
  show ?case
  proof (cases "e = [] \<or> e = ''.''")
    case True
    with Cons.IH [OF Cons.prems(1) es] show ?thesis by auto
  next
    case skip: False
    show ?thesis
    proof (cases "e = ''..''")
      case False
      with skip e Cons.prems(1) have "clean_stack r (e # out)"
        by (simp add: clean_stack_def)
      from Cons.IH [OF this es] skip False show ?thesis by simp
    next
      case True
      show ?thesis
      proof (cases out)
        case Nil
        show ?thesis
        proof (cases r)
          case True
          with Cons.IH [OF Cons.prems(1) es] Nil \<open>e = ''..''\<close> show ?thesis by simp
        next
          case False
          then have "clean_stack r [e]" using \<open>e = ''..''\<close> by (simp add: clean_stack_def)
          from Cons.IH [OF this es] Nil False \<open>e = ''..''\<close> show ?thesis by simp
        qed
      next
        case (Cons el rest)
        show ?thesis
        proof (cases "el = ''..''")
          case True
          with Cons.prems(1) Cons \<open>e = ''..''\<close> have "clean_stack r (e # out)"
            by (auto simp add: clean_stack_def)
          from Cons.IH [OF this es] Cons True \<open>e = ''..''\<close> show ?thesis by simp
        next
          case False
          with Cons.prems(1) Cons have "clean_stack r rest"
            by (auto simp add: clean_stack_def)
          from Cons.IH [OF this es] Cons False \<open>e = ''..''\<close> show ?thesis by simp
        qed
      qed
    qed
  qed
qed

lemma clean_elems_idem:
  "clean_stack r (rev es @ out) \<Longrightarrow> clean_elems r out es = rev out @ es"
proof (induction es arbitrary: out)
  case Nil
  then show ?case by simp
next
  case (Cons e es)
  from Cons.prems have st: "clean_stack r (rev es @ e # out)" by simp
  then have e: "e \<noteq> []" "e \<noteq> ''.''" by (simp_all add: clean_stack_def)
  have push: "clean_elems r out (e # es) = clean_elems r (e # out) es"
  proof (cases "e = ''..''")
    case False
    with e show ?thesis by simp
  next
    case True
    from st have "names_on_top (rev es @ e # out)" by (simp add: clean_stack_def)
    then have "names_on_top (e # out)" by (rule names_on_top_append)
    with True have dots: "\<forall>x\<in>set out. x = ''..''" by simp
    from st True have "\<not> r" by (auto simp add: clean_stack_def)
    with True dots show ?thesis by (cases out) simp_all
  qed
  from Cons.IH [OF st] push show ?case by simp
qed

lemma segments_stack: "clean_stack (is_absolute p) (rev (segments p))"
  unfolding segments_def
  by (rule clean_elems_stack) (auto simp add: clean_stack_def dest: split_sep_no_sep)

lemma segments_elem:
  "e \<in> set (segments p) \<Longrightarrow> e \<noteq> [] \<and> e \<noteq> ''.'' \<and> CHR ''/'' \<notin> set e"
  using segments_stack [of p] by (simp add: clean_stack_def)

lemma join_sep_hd: "es \<noteq> [] \<Longrightarrow> hd es \<noteq> [] \<Longrightarrow> join_sep es \<noteq> [] \<and> hd (join_sep es) = hd (hd es)"
  by (induction es rule: join_sep.induct) simp_all

lemma Clean_segments:
  "segments p \<noteq> [] \<Longrightarrow>
   Clean p = (if is_absolute p then ''/'' else []) @ join_sep (segments p)"
  using join_sep_hd [of "segments p"] segments_elem [of "hd (segments p)" p]
  by (auto simp add: Clean_def segments_def is_absolute_def Let_def)

lemma Clean_no_segments:
  "segments p = [] \<Longrightarrow> Clean p = (if is_absolute p then ''/'' else ''.'')"
  by (auto simp add: Clean_def segments_def is_absolute_def Let_def)

lemma split_Clean:
  assumes "segments p \<noteq> []"
  shows "split_sep [] (Clean p) = (if is_absolute p then [[]] else []) @ segments p"
proof -
  have j: "split_sep [] (join_sep (segments p)) = segments p"
    using assms segments_elem [of _ p] by (intro split_join) auto
  show ?thesis
  proof (cases "is_absolute p")
    case True
    with Clean_segments [OF assms] have "Clean p = [] @ CHR ''/'' # join_sep (segments p)" by simp
    then have "split_sep [] (Clean p) = split_sep [] [] @ split_sep [] (join_sep (segments p))"
      by (simp only: split_sep_append)
    with j True show ?thesis by simp
  next
    case False
    with Clean_segments [OF assms] j show ?thesis by simp
  qed
qed

lemma Clean_resolved:
  "is_absolute (Clean p) = is_absolute p \<and> segments (Clean p) = segments p"
proof (cases "segments p = []")
  case True
  have a: "segments ''/'' = []" "segments ''.'' = []" "is_absolute ''/''" "\<not> is_absolute ''.''"
    by (simp_all add: segments_def is_absolute_def)
  from True a show ?thesis by (simp add: Clean_no_segments)
next
  case False
  have abs: "is_absolute (Clean p) = is_absolute p"
  proof (cases "is_absolute p")
    case True
    with Clean_segments [OF False] show ?thesis by (simp add: is_absolute_def)
  next
    case rel: False
    from False have "hd (segments p) \<in> set (segments p)" by simp
    from segments_elem [OF this] have h: "hd (segments p) \<noteq> []" "CHR ''/'' \<notin> set (hd (segments p))"
      by simp_all
    then have "hd (hd (segments p)) \<noteq> CHR ''/''" by (cases "hd (segments p)") auto
    with join_sep_hd [OF False h(1)] Clean_segments [OF False] rel show ?thesis
      by (simp add: is_absolute_def)
  qed
  have "clean_elems (is_absolute p) [] (segments p) = segments p"
    using clean_elems_idem [of "is_absolute p" "segments p" "[]"] segments_stack [of p] by simp
  then have "segments (Clean p) = segments p"
    unfolding segments_def [of "Clean p"] abs split_Clean [OF False]
    by (cases "is_absolute p") simp_all
  with abs show ?thesis by simp
qed


lemma HasPrefix_append: "HasPrefix s pre \<Longrightarrow> \<exists>r. s = pre @ r"
  unfolding HasPrefix_def by (metis append_take_drop_id)

lemma Clean_nonempty: "Clean p \<noteq> []"
  by (simp add: Clean_def Let_def)

lemma segments_empty: "segments [] = []"
  by (simp add: segments_def is_absolute_def)

lemma Join_two: "dest \<noteq> [] \<Longrightarrow> Join [dest, n] = Clean (dest @ ''/'' @ n)"
  by (simp add: Join_def)

lemma segments_joined:
  "dest \<noteq> [] \<Longrightarrow>
   is_absolute (dest @ ''/'' @ n) = is_absolute dest \<and>
   segments (dest @ ''/'' @ n) =
     clean_elems (is_absolute dest) (rev (segments dest)) (split_sep [] n)"
proof -
  assume d: "dest \<noteq> []"
  then have a: "is_absolute (dest @ ''/'' @ n) = is_absolute dest" by (simp add: is_absolute_def)
  have "split_sep [] (dest @ ''/'' @ n) = split_sep [] dest @ split_sep [] n"
    using split_sep_append [of "[]" dest n] by simp
  with a show ?thesis by (simp add: segments_def clean_elems_append)
qed

lemma clean_elems_relative_name:
  "clean_elems r out (split_sep [] (relative_name n)) = clean_elems r out (split_sep [] n)"
  unfolding relative_name_def by (induction n) simp_all

lemma relative_name_not_absolute: "\<not> is_absolute (relative_name n)"
  unfolding relative_name_def is_absolute_def
  by (metis (mono_tags, lifting) hd_dropWhile)

text \<open>The guard of the loop, read on the elements of the paths.\<close>

lemma guard_segments:
  assumes named: "named_destination dest"
    and guard: "HasPrefix (Join [dest, n]) (Clean dest @ ''/'')"
  shows "\<exists>r. segments (dest @ ''/'' @ n) = segments dest @ r \<and> r \<noteq> [] \<and> ''..'' \<notin> set r"
proof -
  let ?p = "dest @ ''/'' @ n"
  from named have D: "segments dest \<noteq> []" and l: "last (segments dest) \<noteq> ''..''"
    by (simp_all add: named_destination_def)
  from D have d: "dest \<noteq> []" using segments_empty by auto
  from segments_joined [OF d, of n] have abs: "is_absolute ?p = is_absolute dest" by simp
  from guard Join_two [OF d, of n] obtain R where X: "Clean ?p = (Clean dest @ ''/'') @ R"
    using HasPrefix_append by fastforce
  have T: "segments ?p \<noteq> []"
  proof
    assume "segments ?p = []"
    from Clean_no_segments [OF this] have "length (Clean ?p) = 1" by simp
    with X Clean_nonempty [of dest] show False by (cases "Clean dest") simp_all
  qed
  from X have "split_sep [] (Clean ?p) = split_sep [] (Clean dest) @ split_sep [] R"
    using split_sep_append [of "[]" "Clean dest" R] by simp
  then have "(if is_absolute dest then [[]] else []) @ segments ?p =
      ((if is_absolute dest then [[]] else []) @ segments dest) @ split_sep [] R"
    unfolding split_Clean [OF T] split_Clean [OF D] abs .
  then have eq: "segments ?p = segments dest @ split_sep [] R" by simp
  from segments_stack [of ?p] have "names_on_top (rev (segments ?p))"
    by (simp add: clean_stack_def)
  with eq have "names_on_top (rev (split_sep [] R) @ rev (segments dest))" by simp
  from names_on_top_no_dots [OF this] D l have "''..'' \<notin> set (split_sep [] R)"
    by (simp add: hd_rev)
  with eq split_sep_nonempty [of "[]" R] show ?thesis by blast
qed

lemma below_append:
  "is_absolute path = is_absolute dest \<Longrightarrow> segments path = segments dest @ r \<Longrightarrow> r \<noteq> [] \<Longrightarrow>
   ''..'' \<notin> set r \<Longrightarrow> below dest path"
  by (simp add: below_def Let_def)

lemma guard_below:
  assumes "named_destination dest" and "HasPrefix (Join [dest, n]) (Clean dest @ ''/'')"
  shows "below dest (Join [dest, n])"
proof -
  from assms(1) have d: "dest \<noteq> []" using segments_empty by (auto simp add: named_destination_def)
  from guard_segments [OF assms] obtain r where
    r: "segments (dest @ ''/'' @ n) = segments dest @ r" "r \<noteq> []" "''..'' \<notin> set r" by blast
  from Clean_resolved [of "dest @ ''/'' @ n"] segments_joined [OF d, of n] r(1)
  have "is_absolute (Join [dest, n]) = is_absolute dest"
    and "segments (Join [dest, n]) = segments dest @ r"
    by (simp_all add: Join_two [OF d])
  from below_append [OF this r(2,3)] show ?thesis .
qed

lemma escapes_guard:
  assumes "named_destination dest" and "escapes dest (relative_name n)"
  shows "\<not> HasPrefix (Join [dest, n]) (Clean dest @ ''/'')"
proof
  assume guard: "HasPrefix (Join [dest, n]) (Clean dest @ ''/'')"
  from assms(1) have d: "dest \<noteq> []" using segments_empty by (auto simp add: named_destination_def)
  from guard_segments [OF assms(1) guard] obtain r where
    r: "segments (dest @ ''/'' @ n) = segments dest @ r" "r \<noteq> []" "''..'' \<notin> set r" by blast
  let ?q = "dest @ ''/'' @ relative_name n"
  from d relative_name_not_absolute [of n] have res: "resolved dest (relative_name n) = ?q"
    by (simp add: resolved_def)
  from segments_joined [OF d, of "relative_name n"] segments_joined [OF d, of n] r(1)
  have "is_absolute ?q = is_absolute dest" and "segments ?q = segments dest @ r"
    by (simp_all add: clean_elems_relative_name)
  from below_append [OF this r(2,3)] res assms(2) show False by (simp add: escapes_def)
qed

lemma escapes_not_dest:
  assumes "named_destination dest" and "escapes dest (relative_name n)"
  shows "Join [dest, n] \<noteq> Clean dest"
proof
  assume eq: "Join [dest, n] = Clean dest"
  from assms(1) have d: "dest \<noteq> []" using segments_empty by (auto simp add: named_destination_def)
  let ?q = "dest @ ''/'' @ relative_name n"
  from d relative_name_not_absolute [of n] have res: "resolved dest (relative_name n) = ?q"
    by (simp add: resolved_def)
  from eq Clean_resolved [of "dest @ ''/'' @ n"] Clean_resolved [of dest]
  have "segments (dest @ ''/'' @ n) = segments dest"
    by (simp add: Join_two [OF d])
  with segments_joined [OF d, of "relative_name n"] segments_joined [OF d, of n]
  have "is_absolute ?q = is_absolute dest" and "segments ?q = segments dest"
    by (simp_all add: clean_elems_relative_name)
  with res assms(2) show False by (simp add: escapes_def same_place_def)
qed

subsection \<open>The file system outside the destination\<close>

lemma outside_kept_refl: "outside_kept dest fs fs"
  by (simp add: outside_kept_def)

lemma outside_kept_trans:
  assumes "outside_kept dest fs fs1" and "outside_kept dest fs1 fs2"
  shows "outside_kept dest fs fs2"
  unfolding outside_kept_def
proof (intro allI impI)
  fix path assume o: "\<not> below dest path"
  from assms(1) o have a: "fs1 path = fs path \<or> (fs path = None \<and> fs1 path = Some DirNode)"
    by (simp add: outside_kept_def)
  from assms(2) o have b: "fs2 path = fs1 path \<or> (fs1 path = None \<and> fs2 path = Some DirNode)"
    by (simp add: outside_kept_def)
  from a b show "fs2 path = fs path \<or> (fs path = None \<and> fs2 path = Some DirNode)"
    by auto
qed

lemma outside_kept_MkdirAll: "MkdirAll path fs = Some fs' \<Longrightarrow> outside_kept dest fs fs'"
  by (simp add: outside_kept_def MkdirAll_kept)

lemma outside_kept_write:
  assumes "below dest target" and "OpenFile_trunc target fs = Some fs'"
  shows "outside_kept dest fs (fs'(target \<mapsto> n))"
  unfolding outside_kept_def
proof (intro allI impI)
  fix path assume o: "\<not> below dest path"
  with assms(1) have "path \<noteq> target" by auto
  with assms(2) show "(fs'(target \<mapsto> n)) path = fs path \<or>
      (fs path = None \<and> (fs'(target \<mapsto> n)) path = Some DirNode)"
    by (simp add: OpenFile_trunc_other)
qed

lemma outside_kept_mkdir_write:
  assumes "below dest target" and "MkdirAll d fs = Some fs1"
    and "OpenFile_trunc target fs1 = Some fs2"
  shows "outside_kept dest fs (fs2(target \<mapsto> n))"
  using outside_kept_trans [OF outside_kept_MkdirAll [OF assms(2)]
      outside_kept_write [OF assms(1,3)]] .

lemma extract_entry_outside:
  assumes named: "named_destination dest"
  shows "outside_kept dest fs (snd (extract_entry dest header fs))"
proof (cases "HasPrefix (Join [dest, Name header]) (Clean dest @ ''/'')")
  case False
  then show ?thesis by (simp add: extract_entry_def outside_kept_refl)
next
  case True
  let ?target = "Join [dest, Name header]"
  from True have ins: "below dest ?target" by (rule guard_below [OF named])
  show ?thesis
  proof (cases "Typeflag header")
    case TypeDir
    show ?thesis
    proof (cases "MkdirAll ?target fs")
      case None
      with True TypeDir show ?thesis by (simp add: extract_entry_def outside_kept_refl)
    next
      case (Some fs1)
      with True TypeDir have "snd (extract_entry dest header fs) = fs1"
        by (simp add: extract_entry_def)
      with outside_kept_MkdirAll [OF Some] show ?thesis by simp
    qed
  next
    case TypeReg
    show ?thesis
    proof (cases "MkdirAll (Dir ?target) fs")
      case None
      with True TypeReg show ?thesis by (simp add: extract_entry_def outside_kept_refl)
    next
      case (Some fs1)
      show ?thesis
      proof (cases "OpenFile_trunc ?target fs1")
        case None
        with True TypeReg Some have "snd (extract_entry dest header fs) = fs1"
          by (simp add: extract_entry_def)
        with outside_kept_MkdirAll [OF Some] show ?thesis by simp
      next
        case opened: (Some fs2)
        have "\<exists>n. snd (extract_entry dest header fs) = fs2(?target \<mapsto> n)"
          using True TypeReg Some opened
          by (cases "Body header") (simp_all add: extract_entry_def, (rule exI, rule refl)+)
        then obtain n where "snd (extract_entry dest header fs) = fs2(?target \<mapsto> n)" ..
        with outside_kept_mkdir_write [OF ins Some opened, of n] show ?thesis by simp
      qed
    qed
  next
    case TypeSymlink
    with True show ?thesis by (simp add: extract_entry_def outside_kept_refl)
  next
    case TypeLink
    with True show ?thesis by (simp add: extract_entry_def outside_kept_refl)
  next
    case (TypeOther c)
    with True show ?thesis by (simp add: extract_entry_def outside_kept_refl)
  qed
qed

lemma extract_entries_outside:
  assumes named: "named_destination dest"
  shows "outside_kept dest fs (snd (extract_entries dest entries fin fs))"
proof (induction entries arbitrary: fs)
  case Nil
  then show ?case by (cases fin) (simp_all add: outside_kept_refl)
next
  case (Cons header rest)
  obtain r fs' where step: "extract_entry dest header fs = (r, fs')"
    by (cases "extract_entry dest header fs")
  with extract_entry_outside [OF named, of fs header] have k: "outside_kept dest fs fs'" by simp
  show ?case
  proof (cases r)
    case None
    with step have "extract_entries dest (header # rest) fin fs = extract_entries dest rest fin fs'"
      by simp
    with outside_kept_trans [OF k Cons.IH [of fs']] show ?thesis by simp
  next
    case (Some err)
    with step k show ?thesis by simp
  qed
qed

lemma extract_entry_escape:
  "named_destination dest \<Longrightarrow> escapes dest (relative_name (Name header)) \<Longrightarrow>
   extract_entry dest header fs = (Some (InvalidPath (Name header)), fs)"
  by (simp add: extract_entry_def escapes_guard)

lemma extract_entries_escape_fails:
  assumes named: "named_destination dest"
  shows "e \<in> set entries \<Longrightarrow> escapes dest (relative_name (Name e)) \<Longrightarrow>
         fst (extract_entries dest entries fin fs) \<noteq> None"
proof (induction entries arbitrary: fs)
  case Nil
  then show ?case by simp
next
  case (Cons header rest)
  obtain r fs' where step: "extract_entry dest header fs = (r, fs')"
    by (cases "extract_entry dest header fs")
  show ?case
  proof (cases r)
    case (Some err)
    with step show ?thesis by simp
  next
    case None
    with step extract_entry_escape [OF named, of header fs] Cons.prems have "e \<in> set rest"
      by auto
    from Cons.IH [OF this Cons.prems(2), of fs'] step None show ?thesis by simp
  qed
qed

lemma extract_entries_append:
  "extract_entries dest pre EndOfArchive fs = (None, fs1) \<Longrightarrow>
   extract_entries dest (pre @ rest) fin fs = extract_entries dest rest fin fs1"
proof (induction pre arbitrary: fs)
  case Nil
  then show ?case by simp
next
  case (Cons header pre)
  obtain r fs' where step: "extract_entry dest header fs = (r, fs')"
    by (cases "extract_entry dest header fs")
  with Cons.prems have r: "r = None" and "extract_entries dest pre EndOfArchive fs' = (None, fs1)"
    by (cases r; simp)+
  from Cons.IH [OF this(2)] step r show ?case by simp
qed

lemma extract_entries_at_escape:
  "named_destination dest \<Longrightarrow> extract_entries dest pre EndOfArchive fs = (None, fs1) \<Longrightarrow>
   escapes dest (relative_name (Name e)) \<Longrightarrow>
   extract_entries dest (pre @ e # post) fin fs = (Some (InvalidPath (Name e)), fs1)"
  by (simp add: extract_entries_append extract_entry_escape)

text \<open>
  Claim C1, as the code has it. The claim counts an absolute path in the entry name among
  the names that escape and says that the extraction fails on them.
  \<open>filepath.Join\<close> puts the absolute name \<open>/etc/passwd\<close> below the destination, the
  check of the prefix passes, and \<open>ExtractTarGz\<close> returns no error and has written the
  file \<open>/tmp/out/etc/passwd\<close>.
\<close>

theorem absolute_entry_extracted:
  "is_absolute (Name absolute_entry) \<and>
   escapes ''/tmp/out'' (Name absolute_entry) \<and>
   absolute_entry \<in> set [absolute_entry] \<and>
   fst (ExtractTarGz (TarGz [absolute_entry] EndOfArchive) ''/tmp/out'' Map.empty) = None \<and>
   snd (ExtractTarGz (TarGz [absolute_entry] EndOfArchive) ''/tmp/out'' Map.empty)
     ''/tmp/out/etc/passwd'' = Some (FileNode ''x'')"
  by code_simp

text \<open>
  Claim C1, amended. \<open>ExtractTarGz\<close> takes every entry name from the destination
  directory, its leading separators dropped, so an absolute name is not rejected for
  being absolute. For a named destination: when the name of an entry, so taken, resolves
  through its \<open>..\<close> elements to a path that is neither the destination nor below it,
  \<open>ExtractTarGz\<close> fails; if the entries before it were extracted without error, the
  error is the path error for that name and nothing more is written; and whatever the
  archive holds, a path that is not below the destination is left as it was or is a
  directory created where there was nothing, so no file is written outside the
  destination.
\<close>

theorem escaping_entry_rejected:
  assumes "named_destination dest" and "e \<in> set entries"
    and "escapes dest (relative_name (Name e))"
  shows "fst (ExtractTarGz (TarGz entries fin) dest fs) \<noteq> None \<and>
         outside_kept dest fs (snd (ExtractTarGz (TarGz entries fin) dest fs)) \<and>
         (\<forall>pre post fs1. entries = pre @ e # post \<and>
              ExtractTarGz (TarGz pre EndOfArchive) dest fs = (None, fs1) \<longrightarrow>
              ExtractTarGz (TarGz entries fin) dest fs = (Some (InvalidPath (Name e)), fs1))"
  using assms
  by (simp add: ExtractTarGz_def extract_entries_escape_fails extract_entries_outside
      extract_entries_at_escape)

theorem escaping_entry_rejected_witness:
  "named_destination ''/tmp/out'' \<and>
   escaping_entry \<in> set [conf_entry, escaping_entry] \<and>
   escapes ''/tmp/out'' (relative_name (Name escaping_entry)) \<and>
   ([conf_entry, escaping_entry] = [conf_entry] @ escaping_entry # [] \<and>
    ExtractTarGz (TarGz [conf_entry] EndOfArchive) ''/tmp/out'' Map.empty =
      (None, snd (ExtractTarGz (TarGz [conf_entry] EndOfArchive) ''/tmp/out'' Map.empty))) \<and>
   ExtractTarGz (TarGz [conf_entry, escaping_entry] EndOfArchive) ''/tmp/out'' Map.empty =
     (Some (InvalidPath ''../../etc/passwd''),
      snd (ExtractTarGz (TarGz [conf_entry] EndOfArchive) ''/tmp/out'' Map.empty)) \<and>
   \<not> below ''/tmp/out'' ''/etc/passwd'' \<and>
   (snd (ExtractTarGz (TarGz [conf_entry, escaping_entry] EndOfArchive) ''/tmp/out'' Map.empty)
      ''/etc/passwd'' = Map.empty ''/etc/passwd'' \<or>
    Map.empty ''/etc/passwd'' = (None :: node option) \<and>
    snd (ExtractTarGz (TarGz [conf_entry, escaping_entry] EndOfArchive) ''/tmp/out'' Map.empty)
      ''/etc/passwd'' = Some DirNode)"
proof -
  let ?fs = "Map.empty :: filesys"
  let ?fs1 = "snd (ExtractTarGz (TarGz [conf_entry] EndOfArchive) ''/tmp/out'' ?fs)"
  let ?r = "ExtractTarGz (TarGz [conf_entry, escaping_entry] EndOfArchive) ''/tmp/out'' ?fs"
  have h0: "named_destination ''/tmp/out''" by code_simp
  have h1: "escaping_entry \<in> set [conf_entry, escaping_entry]" by simp
  have h2: "escapes ''/tmp/out'' (relative_name (Name escaping_entry))" by code_simp
  have "fst (ExtractTarGz (TarGz [conf_entry] EndOfArchive) ''/tmp/out'' ?fs) = None"
    by code_simp
  then have h3: "[conf_entry, escaping_entry] = [conf_entry] @ escaping_entry # [] \<and>
      ExtractTarGz (TarGz [conf_entry] EndOfArchive) ''/tmp/out'' ?fs = (None, ?fs1)"
    by (simp add: prod_eq_iff)
  have h4: "\<not> below ''/tmp/out'' ''/etc/passwd''" by code_simp
  note t = escaping_entry_rejected [OF h0 h1 h2, of EndOfArchive ?fs]
  from t h3 have c1: "?r = (Some (InvalidPath (Name escaping_entry)), ?fs1)" by blast
  then have c1': "?r = (Some (InvalidPath ''../../etc/passwd''), ?fs1)"
    by (simp add: escaping_entry_def)
  from t have "outside_kept ''/tmp/out'' ?fs (snd ?r)" by blast
  with h4 have c2: "snd ?r ''/etc/passwd'' = ?fs ''/etc/passwd'' \<or>
      ?fs ''/etc/passwd'' = None \<and> snd ?r ''/etc/passwd'' = Some DirNode"
    unfolding outside_kept_def by blast
  from h0 h1 h2 h3 c1' h4 c2 show ?thesis by blast
qed

text \<open>
  An absolute name with enough \<open>..\<close> elements is rejected like the relative one. The
  destination has to be named: with the parent directory \<open>..\<close> as destination the
  target \<open>../../x\<close> of the name \<open>../x\<close> begins with \<open>../\<close>, passes the check of the
  prefix and is written, outside the destination.
\<close>

lemma absolute_escape_rejected:
  "is_absolute ''/../../etc/passwd'' \<and>
   escapes ''/tmp/out'' (relative_name ''/../../etc/passwd'') \<and>
   fst (ExtractTarGz
          (TarGz [\<lparr>Name = ''/../../etc/passwd'', Typeflag = TypeReg, Body = Copied ''x''\<rparr>]
             EndOfArchive) ''/tmp/out'' Map.empty) =
     Some (InvalidPath ''/../../etc/passwd'')"
  by code_simp

lemma parent_destination_written_outside:
  "\<not> named_destination ''..'' \<and> \<not> below ''..'' ''../../x'' \<and>
   fst (ExtractTarGz (TarGz [parent_entry] EndOfArchive) ''..'' Map.empty) = None \<and>
   snd (ExtractTarGz (TarGz [parent_entry] EndOfArchive) ''..'' Map.empty) ''../../x'' =
     Some (FileNode ''x'')"
  by code_simp

lemma clean_elems_dot:
  "clean_elems rooted out (es @ [''.'', []]) = clean_elems rooted out es"
  "clean_elems rooted out (es @ [''.'']) = clean_elems rooted out es"
  by (simp_all add: clean_elems_append)

lemma Clean_slash_dot:
  assumes "dest \<noteq> []"
  shows "Clean (dest @ ''/./'') = Clean dest" and "Clean (dest @ ''/.'') = Clean dest"
proof -
  have a: "split_sep [] (dest @ ''/./'') = split_sep [] dest @ [''.'', []]"
    using split_sep_append [of "[]" dest "''./''"] by simp
  have b: "split_sep [] (dest @ ''/.'') = split_sep [] dest @ [''.'']"
    using split_sep_append [of "[]" dest "''.''"] by simp
  from assms have h: "hd (dest @ s) = hd dest" for s by simp
  from assms a h show "Clean (dest @ ''/./'') = Clean dest"
    by (simp add: Clean_def clean_elems_dot)
  from assms b h show "Clean (dest @ ''/.'') = Clean dest"
    by (simp add: Clean_def clean_elems_dot)
qed

lemma Join_root:
  "Join [dest, ''./''] = Clean dest" "Join [dest, ''.''] = Clean dest"
proof -
  have e1: "Clean ''./'' = ''.''" by code_simp
  have e2: "Clean ''.'' = ''.''" by code_simp
  have e3: "Clean [] = ''.''" by code_simp
  show "Join [dest, ''./''] = Clean dest"
  proof (cases "dest = []")
    case True
    then show ?thesis by (simp add: Join_def e1 e3)
  next
    case False
    then show ?thesis using Clean_slash_dot(1) [OF False] by (simp add: Join_def)
  qed
  show "Join [dest, ''.''] = Clean dest"
  proof (cases "dest = []")
    case True
    then show ?thesis by (simp add: Join_def e2 e3)
  next
    case False
    then show ?thesis using Clean_slash_dot(2) [OF False] by (simp add: Join_def)
  qed
qed

lemma not_own_prefix: "\<not> HasPrefix d (d @ ''/'')"
  by (simp add: HasPrefix_def)

text \<open>
  Claim C2. The claim is that the entry of the archive root (\<open>.\<close> or \<open>./\<close>) is
  skipped and the remaining entries are extracted. This \<open>ExtractTarGz\<close> does not skip
  it: for every destination the target of the root entry is the cleaned destination
  itself, which does not begin with itself followed by a separator, so the extraction
  ends there with the path error, the file system untouched and the entries after it not
  extracted.
\<close>

theorem root_entry_rejected:
  "ExtractTarGz (TarGz (\<lparr>Name = ''./'', Typeflag = flag, Body = content\<rparr> # rest) fin) dest fs =
     (Some (InvalidPath ''./''), fs) \<and>
   ExtractTarGz (TarGz (\<lparr>Name = ''.'', Typeflag = flag, Body = content\<rparr> # rest) fin) dest fs =
     (Some (InvalidPath ''.''), fs)"
  by (simp add: ExtractTarGz_def extract_entry_def Join_root not_own_prefix)

text \<open>The second \<open>ExtractTarGz\<close> of the repository skips the entry of the root.\<close>

lemma revised_skips_root:
  "Name header = ''.'' \<or> Name header = ''./'' \<Longrightarrow>
   extract_entries_revised cleanDest (header # rest) fin fs =
     extract_entries_revised cleanDest rest fin fs"
  by (auto simp add: extract_entry_revised_def)

text \<open>
  On the archive of the collection script, whose first entry is the root, the first copy
  extracts nothing and the second copy extracts the file.
\<close>

lemma scripted_archive:
  "fst (ExtractTarGz (TarGz [root_entry, conf_entry] EndOfArchive) ''/tmp/out'' Map.empty) =
     Some (InvalidPath ''./'') \<and>
   snd (ExtractTarGz (TarGz [root_entry, conf_entry] EndOfArchive) ''/tmp/out'' Map.empty)
     ''/tmp/out/etc/foo.conf'' = None \<and>
   fst (ExtractTarGz_revised (TarGz [root_entry, conf_entry] EndOfArchive) ''/tmp/out'' Map.empty) =
     None \<and>
   snd (ExtractTarGz_revised (TarGz [root_entry, conf_entry] EndOfArchive) ''/tmp/out'' Map.empty)
     ''/tmp/out/etc/foo.conf'' = Some (FileNode ''x'')"
  by code_simp

text \<open>
  Claim C3. The claim is that after a failed copy the partly written target is removed
  and the copy error is returned. This \<open>ExtractTarGz\<close> does neither: when the write
  fails it returns no error and the bytes written stay in the target; when the read
  from the archive fails it returns the error of the next header and the bytes written
  stay in the target.
\<close>

theorem failed_copy_leaves_file:
  "fst (ExtractTarGz (TarGz [full_disk_entry] EndOfArchive) ''/tmp/out'' Map.empty) = None \<and>
   snd (ExtractTarGz (TarGz [full_disk_entry] EndOfArchive) ''/tmp/out'' Map.empty)
     ''/tmp/out/etc/bar.conf'' = Some (FileNode ''par'') \<and>
   fst (ExtractTarGz (TarGz [truncated_entry] EndOfArchive) ''/tmp/out'' Map.empty) =
     Some TarHeaderError \<and>
   snd (ExtractTarGz (TarGz [truncated_entry] EndOfArchive) ''/tmp/out'' Map.empty)
     ''/tmp/out/etc/bar.conf'' = Some (FileNode ''par'')"
  by code_simp

text \<open>
  The second \<open>ExtractTarGz\<close> of the repository removes the target and returns the copy
  error.
\<close>

lemma revised_removes_partial_file:
  "fst (ExtractTarGz_revised (TarGz [full_disk_entry] EndOfArchive) ''/tmp/out'' Map.empty) =
     Some (CopyError ''/tmp/out/etc/bar.conf'') \<and>
   snd (ExtractTarGz_revised (TarGz [full_disk_entry] EndOfArchive) ''/tmp/out'' Map.empty)
     ''/tmp/out/etc/bar.conf'' = None \<and>
   fst (ExtractTarGz_revised (TarGz [truncated_entry] EndOfArchive) ''/tmp/out'' Map.empty) =
     Some (CopyError ''/tmp/out/etc/bar.conf'') \<and>
   snd (ExtractTarGz_revised (TarGz [truncated_entry] EndOfArchive) ''/tmp/out'' Map.empty)
     ''/tmp/out/etc/bar.conf'' = None"
  by code_simp

section \<open>The second copy of the extraction\<close>

lemma mkdirs_last: "mkdirs (ps @ [p]) fs = Some fs' \<Longrightarrow> fs' p = Some DirNode"
proof (induction ps arbitrary: fs)
  case Nil
  then show ?case by (auto split: option.splits node.splits)
next
  case (Cons q ps)
  then show ?case by (auto split: option.splits node.splits)
qed

lemma MkdirAll_made:
  assumes "MkdirAll path fs = Some fs'"
  shows "fs' path = Some DirNode"
proof -
  from assms have "mkdirs (ancestors [] path @ [path]) fs = Some fs'"
    by (simp add: MkdirAll_def split: if_splits)
  then show ?thesis by (rule mkdirs_last)
qed

lemma MkdirAll_keeps_dir:
  "MkdirAll path fs = Some fs' \<Longrightarrow> fs p = Some DirNode \<Longrightarrow> fs' p = Some DirNode"
  using MkdirAll_kept [of path fs fs' p] by auto

lemma OpenFile_trunc_not_dir:
  "OpenFile_trunc target fs = Some fs' \<Longrightarrow> fs target \<noteq> Some DirNode"
  by (auto simp add: OpenFile_trunc_def split: option.splits node.splits)

lemma outside_kept_remove:
  assumes "below dest target" and "outside_kept dest fs fs'"
  shows "outside_kept dest fs (Remove target fs')"
  unfolding outside_kept_def
proof (intro allI impI)
  fix path assume o: "\<not> below dest path"
  with assms(1) have "path \<noteq> target" by auto
  with assms(2) o show "Remove target fs' path = fs path \<or>
      (fs path = None \<and> Remove target fs' path = Some DirNode)"
    by (simp add: Remove_def outside_kept_def)
qed

lemma extract_entry_revised_checked:
  assumes "Name header \<noteq> ''.''" and "Name header \<noteq> ''./''"
    and "HasPrefix (Join [d, Name header]) (d @ ''/'') \<or> Join [d, Name header] = d"
  shows "extract_entry_revised d header fs =
     (case Typeflag header of
        TypeDir \<Rightarrow>
          (case MkdirAll (Join [d, Name header]) fs of
             None \<Rightarrow> (Some (DirectoryError (Join [d, Name header])), fs)
           | Some fs1 \<Rightarrow> (None, fs1))
      | TypeReg \<Rightarrow>
          (case MkdirAll (Dir (Join [d, Name header])) fs of
             None \<Rightarrow> (Some (ParentDirectoryError (Join [d, Name header])), fs)
           | Some fs1 \<Rightarrow>
               (case OpenFile_trunc (Join [d, Name header]) fs1 of
                  None \<Rightarrow> (Some (CreateFileError (Join [d, Name header])), fs1)
                | Some fs2 \<Rightarrow>
                    (case Body header of
                       Copied content \<Rightarrow>
                         (None, fs2(Join [d, Name header] \<mapsto> FileNode content))
                     | WriteFails written \<Rightarrow>
                         (Some (CopyError (Join [d, Name header])),
                          Remove (Join [d, Name header])
                            (fs2(Join [d, Name header] \<mapsto> FileNode written)))
                     | ReadFails written \<Rightarrow>
                         (Some (CopyError (Join [d, Name header])),
                          Remove (Join [d, Name header])
                            (fs2(Join [d, Name header] \<mapsto> FileNode written))))))
      | TypeSymlink \<Rightarrow> (None, fs)
      | TypeLink \<Rightarrow> (None, fs)
      | TypeOther c \<Rightarrow> (None, fs))"
  using assms by (auto simp add: extract_entry_revised_def Let_def)

text \<open>
  One turn of the loop of the second copy, on a clean and named destination that exists.
\<close>

lemma extract_entry_revised_outside:
  assumes clean: "Clean dest = dest" and named: "named_destination dest"
    and dir: "fs dest = Some DirNode"
  shows "outside_kept dest fs (snd (extract_entry_revised dest header fs)) \<and>
         snd (extract_entry_revised dest header fs) dest = Some DirNode"
proof (cases "Name header = ''.'' \<or> Name header = ''./''")
  case True
  with dir show ?thesis by (auto simp add: extract_entry_revised_def outside_kept_refl)
next
  case root: False
  let ?target = "Join [dest, Name header]"
  show ?thesis
  proof (cases "\<not> HasPrefix ?target (dest @ ''/'') \<and> ?target \<noteq> dest")
    case True
    with root dir show ?thesis by (simp add: extract_entry_revised_def outside_kept_refl)
  next
    case False
    then have ok: "HasPrefix ?target (dest @ ''/'') \<or> ?target = dest" by auto
    from root have r1: "Name header \<noteq> ''.''" and r2: "Name header \<noteq> ''./''" by simp_all
    note unfold = extract_entry_revised_checked [OF r1 r2 ok]
    show ?thesis
    proof (cases "Typeflag header")
      case TypeDir
      show ?thesis
      proof (cases "MkdirAll ?target fs")
        case None
        with TypeDir dir show ?thesis
          by (simp add: unfold outside_kept_refl)
      next
        case (Some fs1)
        with TypeDir have "snd (extract_entry_revised dest header fs) = fs1"
          by (simp add: unfold)
        with outside_kept_MkdirAll [OF Some] MkdirAll_keeps_dir [OF Some dir]
        show ?thesis by simp
      qed
    next
      case TypeReg
      show ?thesis
      proof (cases "MkdirAll (Dir ?target) fs")
        case None
        with TypeReg dir show ?thesis
          by (simp add: unfold outside_kept_refl)
      next
        case (Some fs1)
        note d1 = MkdirAll_keeps_dir [OF Some dir]
        note k1 = outside_kept_MkdirAll [OF Some, of dest]
        show ?thesis
        proof (cases "OpenFile_trunc ?target fs1")
          case None
          with TypeReg Some have "snd (extract_entry_revised dest header fs) = fs1"
            by (simp add: unfold)
          with k1 d1 show ?thesis by simp
        next
          case opened: (Some fs2)
          from OpenFile_trunc_not_dir [OF opened] d1 have ne: "?target \<noteq> dest" by auto
          with ok clean have "HasPrefix ?target (Clean dest @ ''/'')" by simp
          then have ins: "below dest ?target" by (rule guard_below [OF named])
          from OpenFile_trunc_other [OF opened, of dest] ne d1 have d2: "fs2 dest = Some DirNode"
            by simp
          have w: "outside_kept dest fs (fs2(?target \<mapsto> n))" for n
            by (rule outside_kept_mkdir_write [OF ins Some opened])
          have "(\<exists>n. snd (extract_entry_revised dest header fs) = fs2(?target \<mapsto> n)) \<or>
                (\<exists>n. snd (extract_entry_revised dest header fs) = Remove ?target (fs2(?target \<mapsto> n)))"
            using TypeReg Some opened
            by (cases "Body header") (simp_all add: unfold, blast+)
          then show ?thesis
          proof (elim disjE exE)
            fix n assume e: "snd (extract_entry_revised dest header fs) = fs2(?target \<mapsto> n)"
            with w [of n] d2 ne show ?thesis by simp
          next
            fix n assume e: "snd (extract_entry_revised dest header fs) = Remove ?target (fs2(?target \<mapsto> n))"
            with outside_kept_remove [OF ins w [of n]] d2 ne show ?thesis
              by (simp add: Remove_def)
          qed
        qed
      qed
    next
      case TypeSymlink
      with dir show ?thesis by (simp add: unfold outside_kept_refl)
    next
      case TypeLink
      with dir show ?thesis by (simp add: unfold outside_kept_refl)
    next
      case (TypeOther c)
      with dir show ?thesis by (simp add: unfold outside_kept_refl)
    qed
  qed
qed

lemma extract_entries_revised_outside:
  assumes "Clean dest = dest" and "named_destination dest"
  shows "fs dest = Some DirNode \<Longrightarrow>
         outside_kept dest fs (snd (extract_entries_revised dest entries fin fs))"
proof (induction entries arbitrary: fs)
  case Nil
  then show ?case by (cases fin) (simp_all add: outside_kept_refl)
next
  case (Cons header rest)
  obtain r fs' where step: "extract_entry_revised dest header fs = (r, fs')"
    by (cases "extract_entry_revised dest header fs")
  with extract_entry_revised_outside [of dest fs header, OF assms Cons.prems]
  have k: "outside_kept dest fs fs'" and d: "fs' dest = Some DirNode" by simp_all
  show ?case
  proof (cases r)
    case None
    with step have "extract_entries_revised dest (header # rest) fin fs =
        extract_entries_revised dest rest fin fs'"
      by simp
    with outside_kept_trans [OF k Cons.IH [of fs', OF d]] show ?thesis by simp
  next
    case (Some err)
    with step k show ?thesis by simp
  qed
qed

lemma extract_entry_revised_escape:
  assumes "Clean dest = dest" and "named_destination dest"
    and "escapes dest (relative_name (Name header))"
  shows "extract_entry_revised dest header fs = (Some (InvalidPath (Name header)), fs)"
proof -
  note ne = escapes_not_dest [OF assms(2,3)]
  with Join_root [of dest] have "Name header \<noteq> ''.''" "Name header \<noteq> ''./''"
    by auto
  with assms(1) ne escapes_guard [OF assms(2,3)] show ?thesis
    by (simp add: extract_entry_revised_def)
qed

lemma extract_entries_revised_escape_fails:
  assumes "Clean dest = dest" and "named_destination dest"
  shows "e \<in> set entries \<Longrightarrow> escapes dest (relative_name (Name e)) \<Longrightarrow>
         fst (extract_entries_revised dest entries fin fs) \<noteq> None"
proof (induction entries arbitrary: fs)
  case Nil
  then show ?case by simp
next
  case (Cons header rest)
  obtain r fs' where step: "extract_entry_revised dest header fs = (r, fs')"
    by (cases "extract_entry_revised dest header fs")
  show ?case
  proof (cases r)
    case (Some err)
    with step show ?thesis by simp
  next
    case None
    with step extract_entry_revised_escape [OF assms, of header fs] Cons.prems
    have "e \<in> set rest" by auto
    from Cons.IH [OF this Cons.prems(2), of fs'] step None show ?thesis by simp
  qed
qed

lemma revised_escaping_entry_rejected:
  assumes "Clean dest = dest" and "named_destination dest" and "e \<in> set entries"
    and "escapes dest (relative_name (Name e))"
  shows "fst (ExtractTarGz_revised (TarGz entries fin) dest fs) \<noteq> None \<and>
         outside_kept dest fs (snd (ExtractTarGz_revised (TarGz entries fin) dest fs))"
proof (cases "MkdirAll dest fs")
  case None
  then show ?thesis by (simp add: ExtractTarGz_revised_def outside_kept_refl)
next
  case (Some fs0)
  from MkdirAll_made [OF Some] have d: "fs0 dest = Some DirNode" .
  from Some assms(1) have r: "ExtractTarGz_revised (TarGz entries fin) dest fs =
      extract_entries_revised dest entries fin fs0"
    by (simp add: ExtractTarGz_revised_def)
  from outside_kept_trans [OF outside_kept_MkdirAll [OF Some]
      extract_entries_revised_outside [of dest fs0 entries fin, OF assms(1,2) d]]
    extract_entries_revised_escape_fails [OF assms]
  show ?thesis by (simp add: r)
qed

text \<open>
  In general: once the target was opened, a failed write leaves the bytes written in the
  target and lets the loop go on, where the second copy removes the target and ends the
  extraction with the copy error.
\<close>

lemma failed_write_kept:
  assumes "Typeflag header = TypeReg" and "Body header = WriteFails written"
    and "HasPrefix (Join [dest, Name header]) (Clean dest @ ''/'')"
    and "MkdirAll (Dir (Join [dest, Name header])) fs = Some fs1"
    and "OpenFile_trunc (Join [dest, Name header]) fs1 = Some fs2"
  shows "extract_entry dest header fs =
           (None, fs2(Join [dest, Name header] \<mapsto> FileNode written))"
  using assms by (simp add: extract_entry_def)

lemma revised_failed_write_removed:
  assumes "Typeflag header = TypeReg" and "Body header = WriteFails written"
    and "Name header \<noteq> ''.''" and "Name header \<noteq> ''./''"
    and "HasPrefix (Join [d, Name header]) (d @ ''/'') \<or> Join [d, Name header] = d"
    and "MkdirAll (Dir (Join [d, Name header])) fs = Some fs1"
    and "OpenFile_trunc (Join [d, Name header]) fs1 = Some fs2"
  shows "fst (extract_entry_revised d header fs) = Some (CopyError (Join [d, Name header])) \<and>
         snd (extract_entry_revised d header fs) (Join [d, Name header]) = None"
  using assms(1,2,6,7)
  by (simp add: extract_entry_revised_checked [OF assms(3,4,5)] Remove_def)

section \<open>Markers of missing paths\<close>

lemma HasSuffix_append: "HasSuffix (p @ s) s"
  by (simp add: HasSuffix_def)

lemma TrimSuffix_append: "TrimSuffix (p @ s) s = p"
  by (simp add: TrimSuffix_def HasSuffix_append)

lemma HasSuffix_last:
  "HasSuffix s suf \<Longrightarrow> suf \<noteq> [] \<Longrightarrow> s \<noteq> [] \<and> last s = last suf"
proof -
  assume h: "HasSuffix s suf" and ne: "suf \<noteq> []"
  from h have len: "length suf \<le> length s" and d: "drop (length s - length suf) s = suf"
    by (simp_all add: HasSuffix_def)
  from ne len have s: "s \<noteq> []" by auto
  from ne len have "length s - length suf < length s"
    by (cases suf) auto
  then have "last (drop (length s - length suf) s) = last s"
    by (rule last_drop)
  with d s show ?thesis by simp
qed

lemma not_suffix_DIRECTORY: "\<not> HasSuffix (p @ ''DIRECTORY'') ''DIRECTORY.MISSING''"
proof
  assume "HasSuffix (p @ ''DIRECTORY'') ''DIRECTORY.MISSING''"
  from HasSuffix_last [OF this] show False by simp
qed

text \<open>
  Claim C5. The claim is that a marker is recorded as an error record under the original
  relative path, the marker suffix stripped. For the marker of a missing directory,
  \<open>p\<close> followed by \<open>DIRECTORY.MISSING\<close>, the walk strips \<open>.MISSING\<close> first, after
  which the longer suffix no longer matches: the record is written under \<open>p\<close> followed
  by \<open>DIRECTORY\<close>, and the manifest holds no record for \<open>p\<close>.
\<close>

theorem directory_marker_record:
  "record_walked digest server serverOutputDir manifest (p @ ''DIRECTORY.MISSING'') =
     AddFile manifest server (p @ ''DIRECTORY'') [] ''Missing on remote'' \<and>
   archived ''ops'' (dir_marker ''ops'' ''/etc/nginx/'') =
     Some (''etc/nginx'' @ ''DIRECTORY.MISSING'') \<and>
   GetFileInfo (record_walked digest ''h'' serverOutputDir NewManifest
         (the (archived ''ops'' (dir_marker ''ops'' ''/etc/nginx/''))))
       ''h'' ''etc/nginxDIRECTORY'' =
     (\<lparr>Path = ''etc/nginxDIRECTORY'', Checksum = [], Error = ''Missing on remote''\<rparr>, True) \<and>
   GetFileInfo (record_walked digest ''h'' serverOutputDir NewManifest
         (the (archived ''ops'' (dir_marker ''ops'' ''/etc/nginx/''))))
       ''h'' ''etc/nginx'' = (zero_FileInfo, False)"
proof -
  have s1: "HasSuffix (p @ ''DIRECTORY.MISSING'') ''.MISSING''" for p
    using HasSuffix_append [of "p @ ''DIRECTORY''" "''.MISSING''"] by simp
  have s2: "TrimSuffix (p @ ''DIRECTORY.MISSING'') ''.MISSING'' = p @ ''DIRECTORY''" for p
    using TrimSuffix_append [of "p @ ''DIRECTORY''" "''.MISSING''"] by simp
  have s3: "TrimSuffix (p @ ''DIRECTORY'') ''DIRECTORY.MISSING'' = p @ ''DIRECTORY''" for p
    by (simp add: TrimSuffix_def not_suffix_DIRECTORY)
  have a: "record_walked digest server serverOutputDir manifest (p @ ''DIRECTORY.MISSING'') =
     AddFile manifest server (p @ ''DIRECTORY'') [] ''Missing on remote''"
    for server manifest p
    by (simp only: record_walked_def s1 s2 s3 Let_def simp_thms if_True)
  have b: "archived ''ops'' (dir_marker ''ops'' ''/etc/nginx/'') =
      Some (''etc/nginx'' @ ''DIRECTORY.MISSING'')"
    by code_simp
  have c: "GetFileInfo (AddFile NewManifest ''h'' (''etc/nginx'' @ ''DIRECTORY'') [] ''Missing on remote'')
       ''h'' ''etc/nginxDIRECTORY'' =
     (\<lparr>Path = ''etc/nginxDIRECTORY'', Checksum = [], Error = ''Missing on remote''\<rparr>, True)"
    by (simp add: GetFileInfo_def AddFile_def NewManifest_def)
  have d: "GetFileInfo (AddFile NewManifest ''h'' (''etc/nginx'' @ ''DIRECTORY'') [] ''Missing on remote'')
       ''h'' ''etc/nginx'' = (zero_FileInfo, False)"
    by (simp add: GetFileInfo_def AddFile_def NewManifest_def)
  from a b c d show ?thesis by (simp only: simp_thms option.sel)
qed

text \<open>The marker of a missing file is recorded under the path of the file.\<close>

lemma file_marker_record:
  "\<not> HasSuffix p ''DIRECTORY.MISSING'' \<Longrightarrow>
   record_walked digest server serverOutputDir manifest (p @ ''.MISSING'') =
     AddFile manifest server p [] ''Missing on remote''"
  by (simp add: record_walked_def HasSuffix_append TrimSuffix_append Let_def)
     (simp add: TrimSuffix_def)

text \<open>
  The record of a marker stands for an error, so the path of a missing file is not in the
  comparison set of any server list that holds the server.
\<close>

lemma valid_on_AddFile_error:
  "fileError \<noteq> [] \<Longrightarrow> \<not> valid_on (AddFile m server p checksum fileError) p server"
  by (simp add: valid_on_def AddFile_def Let_def update_conv')

lemma file_marker_excluded:
  assumes "\<not> HasSuffix p ''DIRECTORY.MISSING''" and "server \<in> set servers"
  shows "p \<notin> set (getFilesToCompare servers
           (record_walked digest server serverOutputDir manifest (p @ ''.MISSING'')))"
proof -
  have "\<not> valid_on (AddFile manifest server p [] ''Missing on remote'') p server"
    by (rule valid_on_AddFile_error) simp
  with assms show ?thesis
    using getFilesToCompare_only_common
      [of p servers "AddFile manifest server p [] ''Missing on remote''"]
    by (auto simp add: file_marker_record)
qed

lemma missing_file_scenario:
  "archived ''ops'' (file_marker ''ops'' ''/etc/foo.conf'') = Some ''etc/foo.conf.MISSING'' \<and>
   GetFileInfo (record_walked digest ''h'' serverOutputDir NewManifest
         (the (archived ''ops'' (file_marker ''ops'' ''/etc/foo.conf''))))
       ''h'' ''etc/foo.conf'' =
     (\<lparr>Path = ''etc/foo.conf'', Checksum = [], Error = ''Missing on remote''\<rparr>, True) \<and>
   ''etc/foo.conf'' \<notin> set (getFilesToCompare [''h'']
       (record_walked digest ''h'' serverOutputDir NewManifest
          (the (archived ''ops'' (file_marker ''ops'' ''/etc/foo.conf'')))))"
proof -
  have m: "archived ''ops'' (file_marker ''ops'' ''/etc/foo.conf'') =
      Some (''etc/foo.conf'' @ ''.MISSING'')"
    by code_simp
  have n: "\<not> HasSuffix ''etc/foo.conf'' ''DIRECTORY.MISSING''"
    by (simp add: HasSuffix_def)
  have r: "record_walked digest ''h'' serverOutputDir NewManifest
        (the (archived ''ops'' (file_marker ''ops'' ''/etc/foo.conf''))) =
      AddFile NewManifest ''h'' ''etc/foo.conf'' [] ''Missing on remote''"
    unfolding m option.sel by (rule file_marker_record [OF n])
  have e: "''etc/foo.conf'' \<notin> set (getFilesToCompare [''h'']
       (record_walked digest ''h'' serverOutputDir NewManifest (''etc/foo.conf'' @ ''.MISSING'')))"
    by (rule file_marker_excluded [OF n]) simp
  from m r e show ?thesis
    by (simp add: GetFileInfo_AddFile_same)
qed

text \<open>
  The marker of the root directory and the markers of relative paths are touched beside
  the staging directory: the archive does not hold them and the walk does not meet them.
\<close>

lemma markers_beside_tree:
  "archived ''ops'' (dir_marker ''ops'' ''/'') = None \<and>
   archived ''ops'' (dir_marker ''ops'' ''etc/nginx'') = None \<and>
   archived ''ops'' (file_marker ''ops'' ''etc/foo.conf'') = None"
  by code_simp


end
